theory Spec2Isabelle
  imports Main "HOL-Library.List_Lexorder"
begin

section \<open>Python values used by the settings module\<close>

text \<open>
  A Python \<open>str\<close> is a sequence of Unicode code points, so it is modelled as a list of
  natural numbers (the code points); \<open>py\<close> reads an ASCII literal as such a list.
  Lists of code points are ordered lexicographically, as Python orders \<open>str\<close>.
\<close>

type_synonym str = "nat list"

definition py :: "string \<Rightarrow> str" where
  "py s = map of_char s"

text \<open>
  The two exception kinds that \<open>register_enderchest\<close> and \<open>register_save\<close> declare in their
  docstrings (and that the collaborators \<open>EnderChest.from_cfg\<close> and \<open>GSB_Manifest.of\<close>
  raise); they are exactly the kinds the handlers \<open>except (ValueError, OSError)\<close> catch.
\<close>

datatype reg_error = ValueError | OSError

text \<open>What \<open>Config.from_config\<close> can raise itself: a failed read, a parse error, a missing key.\<close>

datatype error = ReadError reg_error | TOMLDecodeError | KeyError str

text \<open>
  The declared type \<open>_ConfigDict = dict[str, str | tuple[str, ...]]\<close>: a dictionary is an
  association list in insertion order whose keys are looked up with \<open>map_of\<close>.
\<close>

datatype cfg_value = Str str | Strs "str list"

type_synonym config_dict = "(str \<times> cfg_value) list"

text \<open>A call \<open>LOGGER.error(fmt, path, exc)\<close>: the format string and its two arguments.\<close>

datatype log_record = LogError string str reg_error

section \<open>The world outside the module\<close>

text \<open>
  Everything \<open>config.py\<close> calls but does not define is a field of the world:
  \<open>'p\<close> is \<open>pathlib.Path\<close> (up to \<open>==\<close>), \<open>'c\<close> is \<open>EnderChest\<close>, \<open>'m\<close> is the GSB manifest.
  \<open>from_cfg\<close> stands for \<open>EnderChest.from_cfg(ender_chest_config(p))\<close>.
  The world stays as it is during a run: the same call gives the same answer.
\<close>

record ('p, 'c, 'm) world =
  Path :: "str \<Rightarrow> 'p"
  str_of :: "'p \<Rightarrow> str"
  expanduser :: "'p \<Rightarrow> 'p"
  parent :: "'p \<Rightarrow> 'p"
  from_cfg :: "'p \<Rightarrow> reg_error + 'c"
  manifest_of :: "'p \<Rightarrow> reg_error + 'm"
  root :: "'m \<Rightarrow> 'p"
  getenv :: "str \<Rightarrow> str option"
  read_text :: "'p \<Rightarrow> reg_error + str"
  write_text :: "'p \<Rightarrow> str \<Rightarrow> reg_error option"
  toml_loads :: "str \<Rightarrow> config_dict option"
  get_version :: str
  now_isoformat :: str

section \<open>The configuration store\<close>

text \<open>
  A Python \<open>dict\<close> keeps insertion order, and \<open>d[k] = v\<close> on a key already present
  replaces the value where the key stands.
\<close>

fun setitem :: "('k \<times> 'v) list \<Rightarrow> 'k \<Rightarrow> 'v \<Rightarrow> ('k \<times> 'v) list" where
  "setitem [] k v = [(k, v)]"
| "setitem ((k', v') # d) k v = (if k' = k then (k', v) # d else (k', v') # setitem d k v)"

text \<open>
  The state of a \<open>Config\<close>: its private dictionaries \<open>_ender_chests\<close> and \<open>_saves\<close> (a name
  cannot begin with an underscore here). The properties \<open>ender_chests\<close> and \<open>saves\<close> list
  their values.
\<close>

record ('p, 'c, 'm) config =
  priv_ender_chests :: "('p \<times> 'c) list"
  priv_saves :: "('p \<times> 'm) list"

definition ender_chests :: "('p, 'c, 'm) config \<Rightarrow> 'c list" where
  "ender_chests self = map snd (priv_ender_chests self)"

definition saves :: "('p, 'c, 'm) config \<Rightarrow> 'm list" where
  "saves self = map snd (priv_saves self)"

definition register_enderchest ::
  "('p, 'c, 'm) world \<Rightarrow> ('p, 'c, 'm) config \<Rightarrow> 'p \<Rightarrow> reg_error + ('p, 'c, 'm) config" where
  "register_enderchest w self minecraft_root =
     (case from_cfg w (expanduser w minecraft_root) of
        Inl e \<Rightarrow> Inl e
      | Inr chest \<Rightarrow>
          Inr (self\<lparr>priv_ender_chests := setitem (priv_ender_chests self) minecraft_root chest\<rparr>))"

definition register_save ::
  "('p, 'c, 'm) world \<Rightarrow> ('p, 'c, 'm) config \<Rightarrow> 'p \<Rightarrow> reg_error + ('p, 'c, 'm) config" where
  "register_save w self manifest_path =
     (case manifest_of w (parent w (expanduser w manifest_path)) of
        Inl e \<Rightarrow> Inl e
      | Inr save \<Rightarrow>
          Inr (self\<lparr>priv_saves := setitem (priv_saves self) (root w save) save\<rparr>))"

text \<open>The store before the constructor's registration: two empty dictionaries.\<close>

definition empty_config :: "('p, 'c, 'm) config" where
  "empty_config = \<lparr>priv_ender_chests = [], priv_saves = []\<rparr>"

text \<open>
  \<open>Config.__init__\<close>: registers \<open>$MINECRAFT_ROOT\<close> when the variable holds a non-empty
  string; a failure is logged and the store stays empty.
\<close>

definition init :: "('p, 'c, 'm) world \<Rightarrow> log_record list \<times> ('p, 'c, 'm) config" where
  "init w =
     (case getenv w (py ''MINECRAFT_ROOT'') of
        None \<Rightarrow> ([], empty_config)
      | Some minecraft_root \<Rightarrow>
          if minecraft_root = [] then ([], empty_config)
          else (case register_enderchest w empty_config (Path w minecraft_root) of
                  Inr self \<Rightarrow> ([], self)
                | Inl env_chest_load_fail \<Rightarrow>
                    ([LogError ''Failed to load chest from $MINECRAFT_ROOT: %s\<newline>%s''
                        minecraft_root env_chest_load_fail], empty_config)))"

text \<open>No key occurs twice in either dictionary of the store.\<close>

definition unique_keys :: "('p, 'c, 'm) config \<Rightarrow> bool" where
  "unique_keys self \<longleftrightarrow>
     distinct (map fst (priv_ender_chests self)) \<and> distinct (map fst (priv_saves self))"

section \<open>Serialisation\<close>

text \<open>
  \<open>json.dumps\<close> on a \<open>str\<close> (with the default \<open>ensure_ascii=True\<close>): every character
  outside the printable ASCII range \<open>' '..'~'\<close>, the quote (34) and the backslash (92)
  are replaced; the short escapes come first, then \<open>\uXXXX\<close> with four lower-case hex
  digits, and a code point from \<open>0x10000\<close> on is written as a surrogate pair.
  In the pair, \<open>0xd800 | ((n >> 10) & 0x3ff)\<close> is written with \<open>+\<close>, \<open>div\<close> and \<open>mod\<close>:
  the right operand is below \<open>0x400\<close>, so \<open>|\<close> and \<open>+\<close> agree.
\<close>

definition hex_digit :: "nat \<Rightarrow> nat" where
  "hex_digit d = (if d < 10 then 48 + d else 87 + d)"

fun hex_digits :: "nat \<Rightarrow> str" where
  "hex_digits n = (if n < 16 then [hex_digit n] else hex_digits (n div 16) @ [hex_digit (n mod 16)])"

text \<open>The equation of \<open>hex_digits\<close> is unfolded by hand: as a rewrite rule it would not stop.\<close>

declare hex_digits.simps [simp del]

definition format_04x :: "nat \<Rightarrow> str" where
  "format_04x n = replicate (4 - length (hex_digits n)) 48 @ hex_digits n"

definition escape_char :: "nat \<Rightarrow> str" where
  "escape_char n =
     (if n = 92 then [92, 92]
      else if n = 34 then [92, 34]
      else if n = 8 then 92 # py ''b''
      else if n = 12 then 92 # py ''f''
      else if n = 10 then 92 # py ''n''
      else if n = 13 then 92 # py ''r''
      else if n = 9 then 92 # py ''t''
      else if n < 0x10000 then 92 # py ''u'' @ format_04x n
      else (let m = n - 0x10000;
                s1 = 0xd800 + (m div 1024) mod 1024;
                s2 = 0xdc00 + m mod 1024
            in 92 # py ''u'' @ format_04x s1 @ 92 # py ''u'' @ format_04x s2))"

definition needs_escape :: "nat \<Rightarrow> bool" where
  "needs_escape c \<longleftrightarrow> c = 92 \<or> c = 34 \<or> \<not> (32 \<le> c \<and> c \<le> 126)"

definition json_dumps :: "str \<Rightarrow> str" where
  "json_dumps s = 34 # concat (map (\<lambda>c. if needs_escape c then escape_char c else [c]) s) @ [34]"

text \<open>
  \<open>_to_toml\<close>: the outer loop appends one rendering per item of the dictionary, the inner
  loop one line per element of \<open>sorted(set(value))\<close>.
\<close>

definition sorted_set :: "str list \<Rightarrow> str list" where
  "sorted_set value = sort (remdups value)"

definition to_toml :: "config_dict \<Rightarrow> str" where
  "to_toml config_dict =
     foldl (\<lambda>dumped (key, value).
        (dumped @ key @ py '' = '') @
        (case value of
           Str s \<Rightarrow> json_dumps s @ py ''\<newline>''
         | Strs entries \<Rightarrow>
             foldl (\<lambda>dumped entry. dumped @ py ''\<newline>    '' @ json_dumps entry @ py '','')
               (py ''['') (sorted_set entries)
             @ py ''\<newline>]\<newline>''))
       [] config_dict"

text \<open>
  \<open>Config.write\<close> (\<open>write\<close> is a command of Isabelle, hence the longer name). The file system is a fixed part of the world: \<open>write_text\<close> only says
  whether the write raises. A \<open>Path\<close> is always true, so \<open>if config_file\<close> asks whether a
  path was given.
\<close>

definition as_dict_of :: "('p, 'c, 'm) world \<Rightarrow> ('p, 'c, 'm) config \<Rightarrow> config_dict" where
  "as_dict_of w self =
     [(py ''generated_by_enderchest_gui'', Str (get_version w)),
      (py ''last_modified'', Str (now_isoformat w)),
      (py ''ender_chests'',
         Strs (map (\<lambda>(minecraft_root, chest). str_of w minecraft_root) (priv_ender_chests self))),
      (py ''saves'',
         Strs (map (\<lambda>(manifest_path, save). str_of w manifest_path) (priv_saves self)))]"

definition config_write ::
  "('p, 'c, 'm) world \<Rightarrow> ('p, 'c, 'm) config \<Rightarrow> 'p option \<Rightarrow> reg_error + str" where
  "config_write w self config_file =
     (let dumped = to_toml (as_dict_of w self)
      in case config_file of
           None \<Rightarrow> Inr dumped
         | Some f \<Rightarrow> (case write_text w f dumped of Some e \<Rightarrow> Inl e | None \<Rightarrow> Inr dumped))"

section \<open>Loading\<close>

text \<open>
  Iterating a value of the dictionary: a list yields its elements, a \<open>str\<close> yields its
  characters as one-character strings.
\<close>

definition iter_value :: "cfg_value \<Rightarrow> str list" where
  "iter_value v = (case v of Str s \<Rightarrow> map (\<lambda>c. [c]) s | Strs entries \<Rightarrow> entries)"

text \<open>The two loops of \<open>from_config\<close>: a failed registration is logged and the loop goes on.\<close>

fun load_chests ::
  "('p, 'c, 'm) world \<Rightarrow> str list \<Rightarrow> ('p, 'c, 'm) config \<Rightarrow> log_record list \<times> ('p, 'c, 'm) config" where
  "load_chests w [] config = ([], config)"
| "load_chests w (minecraft_root # rest) config =
     (case register_enderchest w config (Path w minecraft_root) of
        Inr config' \<Rightarrow> load_chests w rest config'
      | Inl load_error \<Rightarrow>
          (case load_chests w rest config of
             (log, config') \<Rightarrow>
               (LogError ''Failed to load chest from %s\<newline>%s'' minecraft_root load_error # log,
                config')))"

fun load_saves ::
  "('p, 'c, 'm) world \<Rightarrow> str list \<Rightarrow> ('p, 'c, 'm) config \<Rightarrow> log_record list \<times> ('p, 'c, 'm) config" where
  "load_saves w [] config = ([], config)"
| "load_saves w (manifest_path # rest) config =
     (case register_save w config (Path w manifest_path) of
        Inr config' \<Rightarrow> load_saves w rest config'
      | Inl load_error \<Rightarrow>
          (case load_saves w rest config of
             (log, config') \<Rightarrow>
               (LogError ''Failed to load GSB manifest from %s\<newline>%s'' manifest_path load_error # log,
                config')))"

text \<open>
  How a call of \<open>from_config\<close> ends: it returns the store, or an exception leaves it.
  \<open>Raised e c\<close> also records the local variable \<open>config\<close> at that moment (\<open>None\<close> before
  the constructor has run); Python drops that object with the frame.
\<close>

datatype ('p, 'c, 'm) outcome =
  Returned "('p, 'c, 'm) config"
| Raised error "('p, 'c, 'm) config option"

definition from_config ::
  "('p, 'c, 'm) world \<Rightarrow> 'p \<Rightarrow> log_record list \<times> ('p, 'c, 'm) outcome" where
  "from_config w config_file =
     (case read_text w config_file of
        Inl e \<Rightarrow> ([], Raised (ReadError e) None)
      | Inr text \<Rightarrow>
          (case toml_loads w text of
             None \<Rightarrow> ([], Raised TOMLDecodeError None)
           | Some as_dict \<Rightarrow>
               (case init w of
                  (log0, config0) \<Rightarrow>
                    (case map_of as_dict (py ''ender_chests'') of
                       None \<Rightarrow> (log0, Raised (KeyError (py ''ender_chests'')) (Some config0))
                     | Some chests \<Rightarrow>
                         (case load_chests w (iter_value chests) config0 of
                            (log1, config1) \<Rightarrow>
                              (case map_of as_dict (py ''saves'') of
                                 None \<Rightarrow>
                                   (log0 @ log1, Raised (KeyError (py ''saves'')) (Some config1))
                               | Some svs \<Rightarrow>
                                   (case load_saves w (iter_value svs) config1 of
                                      (log2, config2) \<Rightarrow>
                                        (log0 @ log1 @ log2, Returned config2))))))))"

section \<open>The Rsync version probe\<close>

text \<open>
  \<open>subprocess.run\<close> either raises \<open>FileNotFoundError\<close> or completes with two byte strings.
  A byte string is given by its UTF-8 decoding: \<open>None\<close> when \<open>decode("utf-8")\<close> raises
  \<open>UnicodeDecodeError\<close>, which \<open>_get_rsync_version\<close> does not catch.
\<close>

datatype run_result = FileNotFoundError | Completed (stdout: "str option") (stderr: "str option")

datatype probe_error = UnicodeDecodeError

datatype probe_log = LogStderr str | LogTooOld str | LogCouldNotParse str

text \<open>
  \<open>str.splitlines()[0]\<close>: the text before the first line boundary;
  \<open>IndexError\<close> (here \<open>None\<close>) on the empty text, which has no line.
\<close>

definition is_linebreak :: "nat \<Rightarrow> bool" where
  "is_linebreak c \<longleftrightarrow> c \<in> {0x0a, 0x0b, 0x0c, 0x0d, 0x1c, 0x1d, 0x1e, 0x85, 0x2028, 0x2029}"

definition first_line :: "str \<Rightarrow> str option" where
  "first_line text = (if text = [] then None else Some (takeWhile (\<lambda>c. \<not> is_linebreak c) text))"

text \<open>The characters that \<open>\s\<close> matches in a \<open>str\<close> pattern and that \<open>str.strip()\<close> removes.\<close>

definition is_space :: "nat \<Rightarrow> bool" where
  "is_space c \<longleftrightarrow>
     (0x09 \<le> c \<and> c \<le> 0x0d) \<or> (0x1c \<le> c \<and> c \<le> 0x20) \<or> c = 0x85 \<or> c = 0xa0 \<or> c = 0x1680 \<or>
     (0x2000 \<le> c \<and> c \<le> 0x200a) \<or> c = 0x2028 \<or> c = 0x2029 \<or> c = 0x202f \<or> c = 0x205f \<or>
     c = 0x3000"

definition strip :: "str \<Rightarrow> str" where
  "strip s = rev (dropWhile is_space (rev (dropWhile is_space s)))"

definition is_digit :: "nat \<Rightarrow> bool" where
  "is_digit c \<longleftrightarrow> 48 \<le> c \<and> c \<le> 57"

text \<open>\<open>int\<close> on a string of ASCII digits.\<close>

definition int_of_digits :: "str \<Rightarrow> nat" where
  "int_of_digits ds = foldl (\<lambda>a c. 10 * a + (c - 48)) 0 ds"

text \<open>
  The pattern \<open>^rsync[\s]+version ([0-9]+).([0-9]+).([0-9]+)\<close> under \<open>re.match\<close>.
  A group \<open>([0-9]+)\<close> is greedy: it first takes every digit in front of it and gives
  digits back one at a time when the rest of the pattern fails (\<open>digit_splits\<close> lists
  the choices in that order). The dots are not escaped: each takes any one character
  but a newline. \<open>first_match\<close> is the backtracking search for the first choice that
  succeeds.
\<close>

definition digit_splits :: "str \<Rightarrow> (str \<times> str) list" where
  "digit_splits t =
     map (\<lambda>m. (take m t, drop m t)) (rev [1..<Suc (length (takeWhile is_digit t))])"

definition any_char :: "str \<Rightarrow> str option" where
  "any_char t = (case t of [] \<Rightarrow> None | c # t' \<Rightarrow> if c = 10 then None else Some t')"

fun first_match :: "('a \<Rightarrow> 'b option) \<Rightarrow> 'a list \<Rightarrow> 'b option" where
  "first_match f [] = None"
| "first_match f (x # xs) = (case f x of Some y \<Rightarrow> Some y | None \<Rightarrow> first_match f xs)"

definition match_groups :: "str \<Rightarrow> (str \<times> str \<times> str) option" where
  "match_groups t =
     first_match (\<lambda>(major, t1).
       case any_char t1 of
         None \<Rightarrow> None
       | Some t2 \<Rightarrow>
           first_match (\<lambda>(minor, t3).
             case any_char t3 of
               None \<Rightarrow> None
             | Some t4 \<Rightarrow>
                 first_match (\<lambda>(patch, t5). Some (major, minor, patch)) (digit_splits t4))
             (digit_splits t2))
       (digit_splits t)"

definition re_match :: "str \<Rightarrow> (str \<times> str \<times> str) option" where
  "re_match head =
     (if take 5 head \<noteq> py ''rsync'' then None
      else let t = drop 5 head; t' = dropWhile is_space t
           in if takeWhile is_space t = [] then None
              else if take 8 t' \<noteq> py ''version '' then None
              else match_groups (drop 8 t'))"

text \<open>\<open>_get_rsync_version\<close>, as a function of what \<open>subprocess.run\<close> gives.\<close>

definition get_rsync_version :: "run_result \<Rightarrow> probe_log list \<times> (probe_error + str)" where
  "get_rsync_version result =
     (case result of
        FileNotFoundError \<Rightarrow> ([], Inr [])
      | Completed out err \<Rightarrow>
          (case err of
             None \<Rightarrow> ([], Inl UnicodeDecodeError)
           | Some err_text \<Rightarrow>
               (let log0 = (if err_text = [] then [] else [LogStderr err_text])
                in case out of
                     None \<Rightarrow> (log0, Inl UnicodeDecodeError)
                   | Some text \<Rightarrow>
                       (case first_line text of
                          None \<Rightarrow> (log0, Inr [])
                        | Some head \<Rightarrow>
                            (case re_match head of
                               Some (major, minor, patch) \<Rightarrow>
                                 if int_of_digits major < 3 \<or>
                                    (int_of_digits major = 3 \<and> int_of_digits minor < 2)
                                 then (log0 @ [LogTooOld head], Inr [])
                                 else (log0, Inr (strip (drop (length (py ''rsync'')) head)))
                             | None \<Rightarrow> (log0 @ [LogCouldNotParse head], Inr []))))))"

section \<open>The JSON string reader the serialiser is compared with\<close>

text \<open>
  The specification compares the serialiser with "a standard JSON-style string
  unescaper". That is the reader of a JSON string literal (RFC 8259, as \<open>json.loads\<close>
  scans a string): after
  the opening quote it copies characters up to the closing quote, refuses raw control
  characters, resolves the short escapes and \<open>\uXXXX\<close>, and joins an escaped high
  surrogate that is followed by an escaped low surrogate into one code point. Nothing
  may follow the closing quote. \<open>None\<close> is a decoding error.
\<close>

definition hex_value :: "nat \<Rightarrow> nat option" where
  "hex_value c =
     (if 48 \<le> c \<and> c \<le> 57 then Some (c - 48)
      else if 97 \<le> c \<and> c \<le> 102 then Some (c - 87)
      else if 65 \<le> c \<and> c \<le> 70 then Some (c - 55)
      else None)"

definition decode_uXXXX :: "str \<Rightarrow> nat option" where
  "decode_uXXXX t =
     (case t of
        a # b # c # d # _ \<Rightarrow>
          (case (hex_value a, hex_value b, hex_value c, hex_value d) of
             (Some x, Some y, Some z, Some u) \<Rightarrow> Some (((x * 16 + y) * 16 + z) * 16 + u)
           | _ \<Rightarrow> None)
      | _ \<Rightarrow> None)"

definition backslash :: "nat \<Rightarrow> nat option" where
  "backslash esc =
     (if esc = 34 then Some 34
      else if esc = 92 then Some 92
      else if esc = 47 then Some 47
      else if esc = 98 then Some 8
      else if esc = 102 then Some 12
      else if esc = 110 then Some 10
      else if esc = 114 then Some 13
      else if esc = 116 then Some 9
      else None)"

function scanstring :: "str \<Rightarrow> str option" where
  "scanstring [] = None"
| "scanstring (c # t) =
     (if c = 34 then (if t = [] then Some [] else None)
      else if c = 92 then
        (case t of
           [] \<Rightarrow> None
         | esc # t1 \<Rightarrow>
             if esc \<noteq> 117 then
               (case backslash esc of
                  None \<Rightarrow> None
                | Some ch \<Rightarrow> map_option ((#) ch) (scanstring t1))
             else
               (case decode_uXXXX t1 of
                  None \<Rightarrow> None
                | Some uni \<Rightarrow>
                    if 0xd800 \<le> uni \<and> uni \<le> 0xdbff \<and> take 2 (drop 4 t1) = [92, 117] then
                      (case decode_uXXXX (drop 6 t1) of
                         None \<Rightarrow> None
                       | Some uni2 \<Rightarrow>
                           if 0xdc00 \<le> uni2 \<and> uni2 \<le> 0xdfff then
                             map_option
                               ((#) (0x10000 + ((uni - 0xd800) * 1024 + (uni2 - 0xdc00))))
                               (scanstring (drop 10 t1))
                           else map_option ((#) uni) (scanstring (drop 4 t1)))
                    else map_option ((#) uni) (scanstring (drop 4 t1))))
      else if c < 32 then None
      else map_option ((#) c) (scanstring t))"
  by pat_completeness auto
termination
  by (relation "measure length") auto

definition json_unescape :: "str \<Rightarrow> str option" where
  "json_unescape quoted = (case quoted of [] \<Rightarrow> None | q # t \<Rightarrow> if q = 34 then scanstring t else None)"

text \<open>
  The strings on which the comparison is made: every element is a code point, and no
  high surrogate stands directly before a low surrogate (true of every sequence of
  Unicode scalar values, and of every file name the operating system hands to Python).
\<close>

definition is_code_point :: "nat \<Rightarrow> bool" where
  "is_code_point c \<longleftrightarrow> c < 0x110000"

definition high_surrogate :: "nat \<Rightarrow> bool" where
  "high_surrogate c \<longleftrightarrow> 0xd800 \<le> c \<and> c \<le> 0xdbff"

definition low_surrogate :: "nat \<Rightarrow> bool" where
  "low_surrogate c \<longleftrightarrow> 0xdc00 \<le> c \<and> c \<le> 0xdfff"

fun no_split_pair :: "str \<Rightarrow> bool" where
  "no_split_pair (a # b # t) \<longleftrightarrow> \<not> (high_surrogate a \<and> low_surrogate b) \<and> no_split_pair (b # t)"
| "no_split_pair [a] \<longleftrightarrow> True"
| "no_split_pair [] \<longleftrightarrow> True"

section \<open>A test world\<close>

text \<open>
  A small POSIX world for concrete runs. Paths are strings already in normal form, a
  chest descriptor is a number, a manifest is its root. \<open>chests\<close> lists what the chest
  loader gives for a directory (\<open>OSError\<close> for any other), \<open>repos\<close> the directories that
  hold a manifest, \<open>files\<close> the readable text files, \<open>docs\<close> what the TOML reader makes of
  a text, \<open>env\<close> the value of \<open>$MINECRAFT_ROOT\<close>.
\<close>

definition posix_expanduser :: "str \<Rightarrow> str \<Rightarrow> str" where
  "posix_expanduser home p =
     (case p of
        [] \<Rightarrow> p
      | c # t \<Rightarrow> if c = 126 \<and> (t = [] \<or> hd t = 47) then home @ t else p)"

definition posix_parent :: "str \<Rightarrow> str" where
  "posix_parent p =
     (let pre = rev (dropWhile (\<lambda>c. c \<noteq> 47) (rev p))
      in if pre = [] then py ''.'' else if pre = py ''/'' then pre else butlast pre)"

definition test_world ::
  "str option \<Rightarrow> (str \<times> (reg_error + nat)) list \<Rightarrow> str list \<Rightarrow> (str \<times> str) list \<Rightarrow>
   (str \<times> config_dict) list \<Rightarrow> (str, nat, str) world" where
  "test_world env chests repos files docs =
     \<lparr>Path = (\<lambda>s. s),
      str_of = (\<lambda>p. p),
      expanduser = posix_expanduser (py ''/home/u''),
      parent = posix_parent,
      from_cfg = (\<lambda>p. case map_of chests p of None \<Rightarrow> Inl OSError | Some r \<Rightarrow> r),
      manifest_of = (\<lambda>d. if d \<in> set repos then Inr d else Inl OSError),
      root = (\<lambda>m. m),
      getenv = (\<lambda>name. if name = py ''MINECRAFT_ROOT'' then env else None),
      read_text = (\<lambda>f. case map_of files f of None \<Rightarrow> Inl OSError | Some text \<Rightarrow> Inr text),
      write_text = (\<lambda>f text. None),
      toml_loads = map_of docs,
      get_version = py ''0.1.0'',
      now_isoformat = py ''2024-01-01 00:00:00''\<rparr>"

text \<open>
  A world for writing a store and reading it back: \<open>/saves/world\<close> and \<open>/saves\<close> both hold
  a manifest, and \<open>/cfg.toml\<close> holds \<open>reload_text\<close>, which the TOML reader parses to the
  four keys it shows.
\<close>

definition reload_text :: str where
  \<open>reload_text =
     py ''generated_by_enderchest_gui = "0.1.0"\<newline>last_modified = "2024-01-01 00:00:00"\<newline>'' @
     py ''ender_chests = [\<newline>]\<newline>'' @
     py ''saves = [\<newline>    "/saves/world",\<newline>]\<newline>''\<close>

definition reload_world :: "(str, nat, str) world" where
  "reload_world =
     test_world None [] [py ''/saves/world'', py ''/saves'']
       [(py ''/cfg.toml'', reload_text)]
       [(reload_text,
         [(py ''generated_by_enderchest_gui'', Str (py ''0.1.0'')),
          (py ''last_modified'', Str (py ''2024-01-01 00:00:00'')),
          (py ''ender_chests'', Strs []),
          (py ''saves'', Strs [py ''/saves/world''])])]"

section \<open>Properties\<close>

lemma setitem_keys:
  "map fst (setitem d k v) = (if k \<in> fst ` set d then map fst d else map fst d @ [k])"
  by (induction d) force+

lemma setitem_distinct: "distinct (map fst d) \<Longrightarrow> distinct (map fst (setitem d k v))"
  by (simp add: setitem_keys)

lemma setitem_twice: "setitem (setitem d k v) k v' = setitem d k v'"
  by (induction d) auto

lemma setitem_map_of: "map_of (setitem d k v) = (map_of d)(k \<mapsto> v)"
  by (induction d) (auto simp: fun_eq_iff)

lemma setitem_count:
  "distinct (map fst d) \<Longrightarrow> length (filter (\<lambda>(k', v'). k' = k) (setitem d k v)) = 1"
proof (induction d)
  case Nil
  then show ?case by simp
next
  case (Cons a d)
  obtain k' v' where a: "a = (k', v')" by (cases a)
  show ?case
  proof (cases "k' = k")
    case True
    with Cons.prems a have "k \<notin> fst ` set d" by auto
    then have "filter (\<lambda>(k', v'). k' = k) d = []"
      by (force simp: filter_empty_conv)
    with True a show ?thesis by simp
  next
    case False
    with Cons a show ?thesis by simp
  qed
qed

lemma setitem_values:
  "distinct (map fst d) \<Longrightarrow>
   map snd (setitem d k v) =
     (if k \<in> fst ` set d then map (\<lambda>(k', v'). if k' = k then v else v') d else map snd d @ [v])"
proof (induction d)
  case Nil
  then show ?case by simp
next
  case (Cons a d)
  obtain k' v' where a: "a = (k', v')" by (cases a)
  show ?case
  proof (cases "k' = k")
    case True
    with Cons.prems a have "k \<notin> fst ` set d" by auto
    then have "map (\<lambda>(k', v'). if k' = k then v else v') d = map snd d"
      by (intro map_cong) force+
    with True a show ?thesis by simp
  next
    case False
    with Cons a show ?thesis by (auto simp: image_iff)
  qed
qed

subsection \<open>Registering a chest twice\<close>

text \<open>
  Claim C6. When the descriptor of a path loads, registering that path twice gives the
  same store as registering it once, and that store holds exactly one entry for the
  path. The keys stay in insertion order: a path already registered keeps its place
  (only its descriptor is replaced there), a new path goes to the end, and
  \<open>ender_chests\<close> lists the descriptors in that order.
\<close>

theorem register_enderchest_twice:
  assumes "from_cfg w (expanduser w p) = Inr chest"
    and "distinct (map fst (priv_ender_chests self))"
  shows "\<exists>self1. register_enderchest w self p = Inr self1 \<and>
           register_enderchest w self1 p = Inr self1 \<and>
           length (filter (\<lambda>(k, c). k = p) (priv_ender_chests self1)) = 1 \<and>
           map fst (priv_ender_chests self1) =
             (if p \<in> fst ` set (priv_ender_chests self) then map fst (priv_ender_chests self)
              else map fst (priv_ender_chests self) @ [p]) \<and>
           ender_chests self1 =
             (if p \<in> fst ` set (priv_ender_chests self)
              then map (\<lambda>(k, c). if k = p then chest else c) (priv_ender_chests self)
              else ender_chests self @ [chest])"
  using assms
  by (simp add: register_enderchest_def setitem_twice setitem_count setitem_keys setitem_values
      ender_chests_def)

theorem register_enderchest_twice_witness:
  "\<exists>self1. register_enderchest (test_world None [(py ''/tmp/mc'', Inr 7)] [] [] []) empty_config (py ''/tmp/mc'') = Inr self1 \<and>
     register_enderchest (test_world None [(py ''/tmp/mc'', Inr 7)] [] [] []) self1 (py ''/tmp/mc'') = Inr self1 \<and>
     priv_ender_chests self1 = [(py ''/tmp/mc'', 7)] \<and> ender_chests self1 = [7]"
  using register_enderchest_twice [of "test_world None [(py ''/tmp/mc'', Inr 7)] [] [] []" "py ''/tmp/mc''" 7 empty_config]
  by (simp add: test_world_def posix_expanduser_def py_def empty_config_def register_enderchest_def ender_chests_def)

lemma setitem_dom: "fst ` set (setitem d k v) = insert k (fst ` set d)"
proof -
  have "set (map fst (setitem d k v)) = insert k (set (map fst d))"
    by (auto simp: setitem_keys)
  then show ?thesis by simp
qed

subsection \<open>Two manifest paths with one root\<close>

text \<open>
  Claim C7. When the resolver maps the directories of two manifest paths to manifests
  with the same root \<open>r\<close>, registering both paths leaves exactly one save entry under
  \<open>r\<close>, holding the manifest of the second registration. The key is \<open>r\<close>, not an
  input path: the keys of the store are those it had before and \<open>r\<close>, and a store
  without saves ends with the single entry \<open>(r, m2)\<close>.
\<close>

theorem register_save_same_root:
  assumes "manifest_of w (parent w (expanduser w p1)) = Inr m1"
    and "manifest_of w (parent w (expanduser w p2)) = Inr m2"
    and "root w m1 = r" and "root w m2 = r"
    and "distinct (map fst (priv_saves self))"
  shows "\<exists>self1 self2. register_save w self p1 = Inr self1 \<and>
           register_save w self1 p2 = Inr self2 \<and>
           length (filter (\<lambda>(k, m). k = r) (priv_saves self2)) = 1 \<and>
           map_of (priv_saves self2) r = Some m2 \<and>
           map fst (priv_saves self2) =
             (if r \<in> fst ` set (priv_saves self) then map fst (priv_saves self)
              else map fst (priv_saves self) @ [r]) \<and>
           (priv_saves self = [] \<longrightarrow> priv_saves self2 = [(r, m2)])"
  using assms
  by (simp add: register_save_def setitem_twice setitem_count setitem_keys setitem_map_of
      setitem_dom)

theorem register_save_same_root_witness:
  "\<exists>self1 self2.
     register_save (test_world None [] [py ''/saves/world''] [] []) empty_config
       (py ''/saves/world/.gsb_manifest'') = Inr self1 \<and>
     register_save (test_world None [] [py ''/saves/world''] [] []) self1
       (py ''/saves/world/other'') = Inr self2 \<and>
     priv_saves self2 = [(py ''/saves/world'', py ''/saves/world'')]"
  using register_save_same_root [of "test_world None [] [py ''/saves/world''] [] []"
      "py ''/saves/world/.gsb_manifest''" "py ''/saves/world''" "py ''/saves/world/other''"
      "py ''/saves/world''" "py ''/saves/world''" empty_config]
  by (simp add: test_world_def posix_expanduser_def posix_parent_def py_def empty_config_def
      register_save_def)

lemma register_enderchest_unique:
  "register_enderchest w self p = Inr self' \<Longrightarrow> unique_keys self \<Longrightarrow> unique_keys self'"
  by (auto simp: register_enderchest_def unique_keys_def setitem_distinct split: sum.splits)

lemma register_save_unique:
  "register_save w self p = Inr self' \<Longrightarrow> unique_keys self \<Longrightarrow> unique_keys self'"
  by (auto simp: register_save_def unique_keys_def setitem_distinct split: sum.splits)

lemma empty_config_unique: "unique_keys empty_config"
  by (simp add: unique_keys_def empty_config_def)

lemma init_unique: "init w = (log, config) \<Longrightarrow> unique_keys config"
  by (auto simp: init_def empty_config_unique register_enderchest_unique
      split: option.splits sum.splits if_splits)

lemma load_chests_unique:
  "load_chests w xs config = (log, config') \<Longrightarrow> unique_keys config \<Longrightarrow> unique_keys config'"
proof (induction xs arbitrary: config log)
  case Nil
  then show ?case by simp
next
  case (Cons x xs)
  show ?case
  proof (cases "register_enderchest w config (Path w x)")
    case (Inl e)
    with Cons.prems obtain log' where "load_chests w xs config = (log', config')"
      by (auto split: prod.splits)
    with Cons.IH Cons.prems(2) show ?thesis by blast
  next
    case (Inr c)
    with Cons.prems have "load_chests w xs c = (log, config')" by simp
    moreover from Inr Cons.prems(2) have "unique_keys c" by (rule register_enderchest_unique)
    ultimately show ?thesis using Cons.IH by blast
  qed
qed

lemma load_saves_unique:
  "load_saves w xs config = (log, config') \<Longrightarrow> unique_keys config \<Longrightarrow> unique_keys config'"
proof (induction xs arbitrary: config log)
  case Nil
  then show ?case by simp
next
  case (Cons x xs)
  show ?case
  proof (cases "register_save w config (Path w x)")
    case (Inl e)
    with Cons.prems obtain log' where "load_saves w xs config = (log', config')"
      by (auto split: prod.splits)
    with Cons.IH Cons.prems(2) show ?thesis by blast
  next
    case (Inr c)
    with Cons.prems have "load_saves w xs c = (log, config')" by simp
    moreover from Inr Cons.prems(2) have "unique_keys c" by (rule register_save_unique)
    ultimately show ?thesis using Cons.IH by blast
  qed
qed

lemma from_config_unique:
  assumes "from_config w f = (log, Returned self')"
  shows "unique_keys self'"
proof -
  from assms obtain chests svs l0 c0 l1 c1 l2 where
    "init w = (l0, c0)" "load_chests w (iter_value chests) c0 = (l1, c1)"
    "load_saves w (iter_value svs) c1 = (l2, self')"
    by (auto simp: from_config_def split: sum.splits option.splits prod.splits)
  then show ?thesis
    using init_unique load_chests_unique load_saves_unique by blast
qed

subsection \<open>One entry per key\<close>

text \<open>
  Claim C4, as the code has it. No operation of the store makes a key occur twice:
  the empty store and the store the constructor builds have unique keys, and
  \<open>register_enderchest\<close>, \<open>register_save\<close> and \<open>from_config\<close> keep them unique. A chest is
  filed under the path as it was passed (\<open>expanduser\<close> is applied only to find the
  descriptor), a save under the root of the manifest that the resolver returns.
\<close>

theorem store_keys_unique:
  "unique_keys (empty_config :: ('p, 'c, 'm) config) \<and>
   unique_keys (snd (init w)) \<and>
   (unique_keys self \<longrightarrow>
      (\<forall>self'. register_enderchest w self p = Inr self' \<longrightarrow>
         unique_keys self' \<and>
         fst ` set (priv_ender_chests self') = insert p (fst ` set (priv_ender_chests self)) \<and>
         priv_saves self' = priv_saves self) \<and>
      (\<forall>self'. register_save w self p = Inr self' \<longrightarrow>
         unique_keys self' \<and>
         (\<exists>save. manifest_of w (parent w (expanduser w p)) = Inr save \<and>
            fst ` set (priv_saves self') = insert (root w save) (fst ` set (priv_saves self))) \<and>
         priv_ender_chests self' = priv_ender_chests self)) \<and>
   (\<forall>log self'. from_config w f = (log, Returned self') \<longrightarrow> unique_keys self')"
proof -
  have A: "unique_keys (empty_config :: ('p, 'c, 'm) config)" by (rule empty_config_unique)
  have B: "unique_keys (snd (init w))" using init_unique [of w] by (cases "init w") simp
  have C1: "unique_keys self' \<and>
         fst ` set (priv_ender_chests self') = insert p (fst ` set (priv_ender_chests self)) \<and>
         priv_saves self' = priv_saves self"
    if "unique_keys self" "register_enderchest w self p = Inr self'" for self'
  proof -
    have "unique_keys self'" using that(2,1) by (rule register_enderchest_unique)
    moreover from that(2) obtain chest where
      "self' = self\<lparr>priv_ender_chests := setitem (priv_ender_chests self) p chest\<rparr>"
      by (auto simp: register_enderchest_def split: sum.splits)
    then have "fst ` set (priv_ender_chests self') = insert p (fst ` set (priv_ender_chests self))
        \<and> priv_saves self' = priv_saves self"
      by (simp add: setitem_dom)
    ultimately show ?thesis by simp
  qed
  have C2: "unique_keys self' \<and>
         (\<exists>save. manifest_of w (parent w (expanduser w p)) = Inr save \<and>
            fst ` set (priv_saves self') = insert (root w save) (fst ` set (priv_saves self))) \<and>
         priv_ender_chests self' = priv_ender_chests self"
    if "unique_keys self" "register_save w self p = Inr self'" for self'
  proof -
    have "unique_keys self'" using that(2,1) by (rule register_save_unique)
    moreover from that(2) obtain save where
      "manifest_of w (parent w (expanduser w p)) = Inr save"
      "self' = self\<lparr>priv_saves := setitem (priv_saves self) (root w save) save\<rparr>"
      by (auto simp: register_save_def split: sum.splits)
    then have "(\<exists>save. manifest_of w (parent w (expanduser w p)) = Inr save \<and>
            fst ` set (priv_saves self') = insert (root w save) (fst ` set (priv_saves self))) \<and>
         priv_ender_chests self' = priv_ender_chests self"
      by (simp add: setitem_dom)
    ultimately show ?thesis by simp
  qed
  have D: "\<forall>log self'. from_config w f = (log, Returned self') \<longrightarrow> unique_keys self'"
    by (intro allI impI) (rule from_config_unique)
  show ?thesis
    apply (intro conjI impI allI)
    subgoal by (rule A)
    subgoal by (rule B)
    subgoal for self' using C1 [of self'] by simp
    subgoal for self' using C1 [of self'] by simp
    subgoal for self' using C1 [of self'] by simp
    subgoal for self' using C2 [of self'] by simp
    subgoal for self' using C2 [of self'] by simp
    subgoal for self' using C2 [of self'] by simp
    subgoal for log self' using D by simp
    done
qed

theorem store_keys_unique_witness:
  "unique_keys (empty_config :: (str, nat, str) config) \<and>
   register_enderchest (test_world None [(py ''/home/u/mc'', Inr 7)] [] [] []) empty_config (py ''~/mc'')
     = Inr \<lparr>priv_ender_chests = [(py ''~/mc'', 7)], priv_saves = []\<rparr> \<and>
   unique_keys \<lparr>priv_ender_chests = [(py ''~/mc'', 7::nat)], priv_saves = ([] :: (str \<times> str) list)\<rparr>"
proof -
  let ?w = "test_world None [(py ''/home/u/mc'', Inr 7)] [] [] []"
  let ?c = "\<lparr>priv_ender_chests = [(py ''~/mc'', 7::nat)], priv_saves = ([] :: (str \<times> str) list)\<rparr>"
  have u: "unique_keys (empty_config :: (str, nat, str) config)"
    by (simp add: unique_keys_def empty_config_def)
  have r: "register_enderchest ?w empty_config (py ''~/mc'') = Inr ?c"
    by (simp add: test_world_def posix_expanduser_def py_def empty_config_def
        register_enderchest_def)
  from store_keys_unique [of ?w empty_config "py ''~/mc''"] u r have "unique_keys ?c"
    by blast
  with u r show ?thesis by simp
qed

text \<open>
  Claim C4 as stated fails: \<open>~/mc\<close> and \<open>/home/u/mc\<close> expand to the same path, and
  registering one after the other leaves two chest entries, one under each spelling.
\<close>

theorem two_spellings_two_entries:
  "expanduser (test_world None [(py ''/home/u/mc'', Inr 7)] [] [] []) (py ''~/mc'') =
     expanduser (test_world None [(py ''/home/u/mc'', Inr 7)] [] [] []) (py ''/home/u/mc'') \<and>
   register_enderchest (test_world None [(py ''/home/u/mc'', Inr 7)] [] [] [])
     empty_config (py ''~/mc'') = Inr \<lparr>priv_ender_chests = [(py ''~/mc'', 7)], priv_saves = []\<rparr> \<and>
   register_enderchest (test_world None [(py ''/home/u/mc'', Inr 7)] [] [] [])
     \<lparr>priv_ender_chests = [(py ''~/mc'', 7)], priv_saves = []\<rparr> (py ''/home/u/mc'') =
     Inr \<lparr>priv_ender_chests = [(py ''~/mc'', 7), (py ''/home/u/mc'', 7)], priv_saves = []\<rparr>"
  by (simp add: test_world_def posix_expanduser_def py_def empty_config_def register_enderchest_def)

subsection \<open>The version probe\<close>

lemmas probe_defs = get_rsync_version_def first_line_def is_linebreak_def re_match_def py_def
  is_space_def match_groups_def digit_splits_def is_digit_def any_char_def int_of_digits_def
  strip_def upt_rec

text \<open>
  Claim C3 as stated fails on its second example: for the first line
  \<open>rsync version 3.2.0\<close> the probe returns \<open>version 3.2.0\<close>, not \<open>3.2.0\<close>. Only the
  tool name is cut off; the word \<open>version\<close> stays.
\<close>

theorem rsync_probe_keeps_version_word:
  "get_rsync_version (Completed (Some (py ''rsync version 3.2.0'')) (Some [])) =
     ([], Inr (py ''version 3.2.0'')) \<and>
   py ''version 3.2.0'' \<noteq> py ''3.2.0''"
  by (simp add: probe_defs)

text \<open>
  Claim C3, as the code has it. For \<open>rsync version 2.9.1\<close> the probe logs that the tool
  is too old and returns the empty string; for \<open>rsync version 3.2.0\<close> it returns
  \<open>version 3.2.0\<close>; when the first line does not match the pattern it returns the empty
  string; and whatever the output, the result is the empty string or the first line
  without its first five characters, stripped.
\<close>

theorem rsync_probe_examples:
  "get_rsync_version (Completed (Some (py ''rsync version 2.9.1'')) (Some [])) =
     ([LogTooOld (py ''rsync version 2.9.1'')], Inr []) \<and>
   get_rsync_version (Completed (Some (py ''rsync version 3.2.0'')) (Some [])) =
     ([], Inr (py ''version 3.2.0'')) \<and>
   (first_line text = Some head \<and> re_match head = None \<longrightarrow>
      snd (get_rsync_version (Completed (Some text) (Some err))) = Inr []) \<and>
   (first_line text = Some head \<longrightarrow>
      snd (get_rsync_version (Completed (Some text) (Some err))) = Inr [] \<or>
      snd (get_rsync_version (Completed (Some text) (Some err))) =
        Inr (strip (drop 5 head)))"
proof -
  have length_rsync: "length (py ''rsync'') = 5" by (simp add: py_def)
  have 1: "get_rsync_version (Completed (Some (py ''rsync version 2.9.1'')) (Some [])) =
     ([LogTooOld (py ''rsync version 2.9.1'')], Inr [])"
    by (simp add: probe_defs)
  have 2: "get_rsync_version (Completed (Some (py ''rsync version 3.2.0'')) (Some [])) =
     ([], Inr (py ''version 3.2.0''))"
    by (simp add: probe_defs)
  have 3: "first_line text = Some head \<and> re_match head = None \<longrightarrow>
      snd (get_rsync_version (Completed (Some text) (Some err))) = Inr []"
    by (simp add: get_rsync_version_def Let_def)
  have 4: "first_line text = Some head \<longrightarrow>
      snd (get_rsync_version (Completed (Some text) (Some err))) = Inr [] \<or>
      snd (get_rsync_version (Completed (Some text) (Some err))) =
        Inr (strip (drop 5 head))"
    by (simp add: get_rsync_version_def Let_def length_rsync split: option.splits)
  from 1 2 3 4 show ?thesis by (intro conjI)
qed

theorem rsync_probe_examples_witness:
  "first_line (py ''openrsync: protocol version 29'') = Some (py ''openrsync: protocol version 29'') \<and>
   re_match (py ''openrsync: protocol version 29'') = None \<and>
   snd (get_rsync_version (Completed (Some (py ''openrsync: protocol version 29'')) (Some []))) = Inr []"
proof -
  have a: "first_line (py ''openrsync: protocol version 29'') = Some (py ''openrsync: protocol version 29'')"
    by (simp add: first_line_def is_linebreak_def py_def)
  have b: "re_match (py ''openrsync: protocol version 29'') = None"
    by (simp add: re_match_def py_def)
  from rsync_probe_examples [of "py ''openrsync: protocol version 29''" "py ''openrsync: protocol version 29''" "[]"] a b
  show ?thesis by blast
qed

subsection \<open>The rendering of the dictionary\<close>

lemma foldl_append_concat: "foldl (\<lambda>acc x. acc @ f x) a xs = a @ concat (map f xs)"
  by (induction xs arbitrary: a) simp_all

lemma to_toml_concat:
  "to_toml d =
     concat (map (\<lambda>(key, value).
        key @ py '' = '' @
        (case value of
           Str s \<Rightarrow> json_dumps s @ py ''\<newline>''
         | Strs entries \<Rightarrow>
             py ''['' @
             concat (map (\<lambda>entry. py ''\<newline>    '' @ json_dumps entry @ py '','')
               (sorted_set entries))
             @ py ''\<newline>]\<newline>'')) d)"
proof -
  have "(\<lambda>dumped (key, value).
        (dumped @ key @ py '' = '') @
        (case value of
           Str s \<Rightarrow> json_dumps s @ py ''\<newline>''
         | Strs entries \<Rightarrow>
             foldl (\<lambda>dumped entry. dumped @ py ''\<newline>    '' @ json_dumps entry @ py '','')
               (py ''['') (sorted_set entries)
             @ py ''\<newline>]\<newline>'')) =
     (\<lambda>acc x. acc @ (\<lambda>(key, value).
        key @ py '' = '' @
        (case value of
           Str s \<Rightarrow> json_dumps s @ py ''\<newline>''
         | Strs entries \<Rightarrow>
             py ''['' @
             concat (map (\<lambda>entry. py ''\<newline>    '' @ json_dumps entry @ py '','')
               (sorted_set entries))
             @ py ''\<newline>]\<newline>'')) x)"
    by (auto simp: fun_eq_iff foldl_append_concat split: cfg_value.splits)
  then show ?thesis
    unfolding to_toml_def by (simp only: foldl_append_concat) simp
qed

lemma to_toml_Nil: "to_toml [] = []"
  by (simp add: to_toml_concat)

lemma to_toml_Str:
  "to_toml ((key, Str s) # d) = key @ py '' = '' @ json_dumps s @ py ''\<newline>'' @ to_toml d"
  by (simp add: to_toml_concat)

lemma to_toml_Strs:
  "to_toml ((key, Strs entries) # d) =
     key @ py '' = ['' @
     concat (map (\<lambda>entry. py ''\<newline>    '' @ json_dumps entry @ py '','') (sorted_set entries)) @
     py ''\<newline>]\<newline>'' @ to_toml d"
  by (simp add: to_toml_concat py_def)

lemma sorted_set_strict: "sorted_wrt (<) (sorted_set xs)"
  by (simp add: sorted_set_def strict_sorted_iff)

lemma sorted_set_set: "set (sorted_set xs) = set xs"
  by (simp add: sorted_set_def)

lemma sorted_set_cong: "set xs = set ys \<Longrightarrow> sorted_set xs = sorted_set ys"
  by (simp add: sorted_set_def flip: sorted_list_of_set_sort_remdups)

subsection \<open>What \<open>Config.write\<close> emits\<close>

text \<open>
  Claim C5. \<open>Config.write\<close> renders the version line, the time line and then each path
  list as \<open>key = [\<close>, one line of four spaces, the quoted path and a comma per element,
  and \<open>]\<close> on a line of its own. The elements of each list are the paths of the store
  as strings in strictly increasing order (so none occurs twice). Two stores with the
  same keys, whatever the order of insertion, are rendered alike. A store with the
  chests \<open>/b\<close> and \<open>/a\<close>, registered in that order, gives the list section of the claim.
\<close>

theorem write_lists_sorted:
  \<open>(let cs = sorted_set (map (\<lambda>(minecraft_root, chest). str_of w minecraft_root) (priv_ender_chests self));
        ss = sorted_set (map (\<lambda>(manifest_path, save). str_of w manifest_path) (priv_saves self))
    in config_write w self None =
         Inr (py ''generated_by_enderchest_gui = '' @ json_dumps (get_version w) @ py ''\<newline>'' @
              py ''last_modified = '' @ json_dumps (now_isoformat w) @ py ''\<newline>'' @
              py ''ender_chests = ['' @
              concat (map (\<lambda>entry. py ''\<newline>    '' @ json_dumps entry @ py '','') cs) @
              py ''\<newline>]\<newline>'' @
              py ''saves = ['' @
              concat (map (\<lambda>entry. py ''\<newline>    '' @ json_dumps entry @ py '','') ss) @
              py ''\<newline>]\<newline>'') \<and>
       sorted_wrt (<) cs \<and> sorted_wrt (<) ss \<and>
       set cs = str_of w ` fst ` set (priv_ender_chests self) \<and>
       set ss = str_of w ` fst ` set (priv_saves self)) \<and>
   (fst ` set (priv_ender_chests self') = fst ` set (priv_ender_chests self) \<and>
    fst ` set (priv_saves self') = fst ` set (priv_saves self) \<longrightarrow>
      config_write w self' None = config_write w self None) \<and>
   config_write (test_world None [] [] [] [])
       \<lparr>priv_ender_chests = [(py ''/b'', 1), (py ''/a'', 2)], priv_saves = []\<rparr> None =
     Inr (py ''generated_by_enderchest_gui = "0.1.0"\<newline>last_modified = "2024-01-01 00:00:00"\<newline>'' @
          py ''ender_chests = [\<newline>    "/a",\<newline>    "/b",\<newline>]\<newline>'' @
          py ''saves = [\<newline>]\<newline>'')\<close>
proof -
  have keys: "set (map (\<lambda>(k, v). f k) d) = f ` fst ` set d" for f :: "'k \<Rightarrow> str" and d :: "('k \<times> 'x) list"
    by (force simp: image_iff)
  have 1: "config_write w self None =
         Inr (py ''generated_by_enderchest_gui = '' @ json_dumps (get_version w) @ py ''\<newline>'' @
              py ''last_modified = '' @ json_dumps (now_isoformat w) @ py ''\<newline>'' @
              py ''ender_chests = ['' @
              concat (map (\<lambda>entry. py ''\<newline>    '' @ json_dumps entry @ py '','')
                (sorted_set (map (\<lambda>(minecraft_root, chest). str_of w minecraft_root) (priv_ender_chests self)))) @
              py ''\<newline>]\<newline>'' @
              py ''saves = ['' @
              concat (map (\<lambda>entry. py ''\<newline>    '' @ json_dumps entry @ py '','')
                (sorted_set (map (\<lambda>(manifest_path, save). str_of w manifest_path) (priv_saves self)))) @
              py ''\<newline>]\<newline>'')"
    by (simp add: config_write_def as_dict_of_def to_toml_Str to_toml_Strs to_toml_Nil py_def)
  have 2: "config_write w self' None = config_write w self None"
    if "fst ` set (priv_ender_chests self') = fst ` set (priv_ender_chests self)"
      "fst ` set (priv_saves self') = fst ` set (priv_saves self)"
  proof -
    have "sorted_set (map (\<lambda>(k, v). str_of w k) (priv_ender_chests self')) =
          sorted_set (map (\<lambda>(k, v). str_of w k) (priv_ender_chests self))"
      by (rule sorted_set_cong) (simp only: keys that)
    moreover have "sorted_set (map (\<lambda>(k, v). str_of w k) (priv_saves self')) =
          sorted_set (map (\<lambda>(k, v). str_of w k) (priv_saves self))"
      by (rule sorted_set_cong) (simp only: keys that)
    ultimately show ?thesis
      by (simp add: config_write_def as_dict_of_def to_toml_Str to_toml_Strs to_toml_Nil)
  qed
  have 3: "config_write (test_world None [] [] [] [])
       \<lparr>priv_ender_chests = [(py ''/b'', 1), (py ''/a'', 2)], priv_saves = []\<rparr> None =
     Inr (py ''generated_by_enderchest_gui = \"0.1.0\"\<newline>last_modified = \"2024-01-01 00:00:00\"\<newline>'' @
          py ''ender_chests = [\<newline>    \"/a\",\<newline>    \"/b\",\<newline>]\<newline>'' @
          py ''saves = [\<newline>]\<newline>'')"
    by (simp add: config_write_def as_dict_of_def to_toml_Str to_toml_Strs to_toml_Nil
        test_world_def sorted_set_def json_dumps_def needs_escape_def py_def)
  show ?thesis
    unfolding Let_def
    apply (intro conjI impI)
    subgoal by (rule 1)
    subgoal by (rule sorted_set_strict)
    subgoal by (rule sorted_set_strict)
    subgoal by (simp only: sorted_set_set keys)
    subgoal by (simp only: sorted_set_set keys)
    subgoal using 2 by blast
    subgoal by (rule 3)
    done
qed

theorem write_lists_sorted_witness:
  \<open>fst ` set [(py ''/a'', 2::nat), (py ''/b'', 1)] = fst ` set [(py ''/b'', 1::nat), (py ''/a'', 2)] \<and>
   config_write (test_world None [] [] [] [])
       \<lparr>priv_ender_chests = [(py ''/a'', 2), (py ''/b'', 1)], priv_saves = []\<rparr> None =
   config_write (test_world None [] [] [] [])
       \<lparr>priv_ender_chests = [(py ''/b'', 1), (py ''/a'', 2)], priv_saves = []\<rparr> None\<close>
proof -
  have a: "fst ` set [(py ''/a'', 2::nat), (py ''/b'', 1)] = fst ` set [(py ''/b'', 1::nat), (py ''/a'', 2)]"
    by auto
  from write_lists_sorted [of "test_world None [] [] [] []"
      "\<lparr>priv_ender_chests = [(py ''/b'', 1), (py ''/a'', 2)], priv_saves = []\<rparr>"
      "\<lparr>priv_ender_chests = [(py ''/a'', 2), (py ''/b'', 1)], priv_saves = []\<rparr>"] a
  show ?thesis by simp
qed

subsection \<open>The two loops of \<open>from_config\<close>\<close>

lemma load_chests_Cons_Inl:
  "register_enderchest w config (Path w c) = Inl e \<Longrightarrow>
   load_chests w (c # cs) config =
     (LogError ''Failed to load chest from %s\<newline>%s'' c e # fst (load_chests w cs config),
      snd (load_chests w cs config))"
  by (simp split: prod.splits)

lemma load_chests_Cons_Inr:
  "register_enderchest w config (Path w c) = Inr config' \<Longrightarrow>
   load_chests w (c # cs) config = load_chests w cs config'"
  by simp

lemma load_saves_Cons_Inl:
  "register_save w config (Path w c) = Inl e \<Longrightarrow>
   load_saves w (c # cs) config =
     (LogError ''Failed to load GSB manifest from %s\<newline>%s'' c e # fst (load_saves w cs config),
      snd (load_saves w cs config))"
  by (simp split: prod.splits)

lemma load_saves_Cons_Inr:
  "register_save w config (Path w c) = Inr config' \<Longrightarrow>
   load_saves w (c # cs) config = load_saves w cs config'"
  by simp

lemma register_enderchest_Inl_iff:
  "register_enderchest w config p = Inl e \<longleftrightarrow> from_cfg w (expanduser w p) = Inl e"
  by (simp add: register_enderchest_def split: sum.splits)

lemma register_save_Inl_iff:
  "register_save w config p = Inl e \<longleftrightarrow> manifest_of w (parent w (expanduser w p)) = Inl e"
  by (simp add: register_save_def split: sum.splits)

lemma load_chests_log:
  "fst (load_chests w cs config) =
     concat (map (\<lambda>c. case from_cfg w (expanduser w (Path w c)) of
                         Inl e \<Rightarrow> [LogError ''Failed to load chest from %s\<newline>%s'' c e]
                       | Inr chest \<Rightarrow> []) cs)"
proof (induction cs arbitrary: config)
  case Nil
  show ?case by simp
next
  case (Cons c cs)
  show ?case
  proof (cases "register_enderchest w config (Path w c)")
    case (Inl e)
    then show ?thesis
      by (simp only: load_chests_Cons_Inl [OF Inl] Cons.IH)
         (simp add: register_enderchest_Inl_iff)
  next
    case (Inr config')
    then have "\<exists>chest. from_cfg w (expanduser w (Path w c)) = Inr chest"
      by (auto simp: register_enderchest_def split: sum.splits)
    then show ?thesis
      by (simp only: load_chests_Cons_Inr [OF Inr] Cons.IH) auto
  qed
qed

lemma load_saves_log:
  "fst (load_saves w cs config) =
     concat (map (\<lambda>c. case manifest_of w (parent w (expanduser w (Path w c))) of
                         Inl e \<Rightarrow> [LogError ''Failed to load GSB manifest from %s\<newline>%s'' c e]
                       | Inr save \<Rightarrow> []) cs)"
proof (induction cs arbitrary: config)
  case Nil
  show ?case by simp
next
  case (Cons c cs)
  show ?case
  proof (cases "register_save w config (Path w c)")
    case (Inl e)
    then show ?thesis
      by (simp only: load_saves_Cons_Inl [OF Inl] Cons.IH)
         (simp add: register_save_Inl_iff)
  next
    case (Inr config')
    then have "\<exists>save. manifest_of w (parent w (expanduser w (Path w c))) = Inr save"
      by (auto simp: register_save_def split: sum.splits)
    then show ?thesis
      by (simp only: load_saves_Cons_Inr [OF Inr] Cons.IH) auto
  qed
qed

text \<open>Every chest entry holds what the loader gives for its key.\<close>

lemma load_chests_keys:
  "fst ` set (priv_ender_chests (snd (load_chests w cs config))) =
     fst ` set (priv_ender_chests config) \<union>
     Path w ` {c \<in> set cs. \<exists>chest. from_cfg w (expanduser w (Path w c)) = Inr chest}"
proof (induction cs arbitrary: config)
  case Nil
  show ?case by simp
next
  case (Cons c cs)
  show ?case
  proof (cases "register_enderchest w config (Path w c)")
    case (Inl e)
    then have "\<nexists>chest. from_cfg w (expanduser w (Path w c)) = Inr chest"
      by (simp add: register_enderchest_Inl_iff)
    then have "{x \<in> set (c # cs). \<exists>chest. from_cfg w (expanduser w (Path w x)) = Inr chest} =
        {x \<in> set cs. \<exists>chest. from_cfg w (expanduser w (Path w x)) = Inr chest}"
      by auto
    then show ?thesis
      by (simp only: load_chests_Cons_Inl [OF Inl] Cons.IH snd_conv)
  next
    case (Inr config')
    then obtain chest where c: "from_cfg w (expanduser w (Path w c)) = Inr chest"
      and k: "fst ` set (priv_ender_chests config') = insert (Path w c) (fst ` set (priv_ender_chests config))"
      by (auto simp: register_enderchest_def setitem_dom split: sum.splits)
    from c have "{x \<in> set (c # cs). \<exists>chest. from_cfg w (expanduser w (Path w x)) = Inr chest} =
        insert c {x \<in> set cs. \<exists>chest. from_cfg w (expanduser w (Path w x)) = Inr chest}"
      by auto
    then show ?thesis
      by (simp only: load_chests_Cons_Inr [OF Inr] Cons.IH k) simp
  qed
qed

lemma load_chests_saves: "priv_saves (snd (load_chests w cs config)) = priv_saves config"
proof (induction cs arbitrary: config)
  case Nil
  show ?case by simp
next
  case (Cons c cs)
  show ?case
  proof (cases "register_enderchest w config (Path w c)")
    case (Inl e)
    show ?thesis by (simp only: load_chests_Cons_Inl [OF Inl] Cons.IH snd_conv)
  next
    case (Inr config')
    then have "priv_saves config' = priv_saves config"
      by (auto simp: register_enderchest_def split: sum.splits)
    then show ?thesis by (simp only: load_chests_Cons_Inr [OF Inr] Cons.IH)
  qed
qed

lemma load_saves_chests:
  "priv_ender_chests (snd (load_saves w cs config)) = priv_ender_chests config"
proof (induction cs arbitrary: config)
  case Nil
  show ?case by simp
next
  case (Cons c cs)
  show ?case
  proof (cases "register_save w config (Path w c)")
    case (Inl e)
    show ?thesis by (simp only: load_saves_Cons_Inl [OF Inl] Cons.IH snd_conv)
  next
    case (Inr config')
    then have "priv_ender_chests config' = priv_ender_chests config"
      by (auto simp: register_save_def split: sum.splits)
    then show ?thesis by (simp only: load_saves_Cons_Inr [OF Inr] Cons.IH)
  qed
qed

lemma load_saves_keys:
  "fst ` set (priv_saves (snd (load_saves w cs config))) =
     fst ` set (priv_saves config) \<union>
     {root w save | save c. c \<in> set cs \<and> manifest_of w (parent w (expanduser w (Path w c))) = Inr save}"
proof (induction cs arbitrary: config)
  case Nil
  show ?case by simp
next
  case (Cons c cs)
  show ?case
  proof (cases "register_save w config (Path w c)")
    case (Inl e)
    then have "\<nexists>save. manifest_of w (parent w (expanduser w (Path w c))) = Inr save"
      by (simp add: register_save_Inl_iff)
    then have "{root w save | save x. x \<in> set (c # cs) \<and>
          manifest_of w (parent w (expanduser w (Path w x))) = Inr save} =
        {root w save | save x. x \<in> set cs \<and>
          manifest_of w (parent w (expanduser w (Path w x))) = Inr save}"
      by auto
    then show ?thesis
      by (simp only: load_saves_Cons_Inl [OF Inl] Cons.IH snd_conv)
  next
    case (Inr config')
    then obtain save where c: "manifest_of w (parent w (expanduser w (Path w c))) = Inr save"
      and k: "fst ` set (priv_saves config') = insert (root w save) (fst ` set (priv_saves config))"
      by (auto simp: register_save_def setitem_dom split: sum.splits)
    from c have "{root w save | save x. x \<in> set (c # cs) \<and>
          manifest_of w (parent w (expanduser w (Path w x))) = Inr save} =
        insert (root w save) {root w save | save x. x \<in> set cs \<and>
          manifest_of w (parent w (expanduser w (Path w x))) = Inr save}"
      by auto
    then show ?thesis
      by (simp only: load_saves_Cons_Inr [OF Inr] Cons.IH k) simp
  qed
qed

lemma setitem_set: "set (setitem d k v) \<subseteq> insert (k, v) (set d)"
  by (induction d) (auto split: if_splits)

lemma register_enderchest_loaded:
  assumes "register_enderchest w config p = Inr config'"
    and "\<forall>(k, v) \<in> set (priv_ender_chests config). from_cfg w (expanduser w k) = Inr v"
  shows "\<forall>(k, v) \<in> set (priv_ender_chests config'). from_cfg w (expanduser w k) = Inr v"
proof -
  from assms(1) obtain chest where c: "from_cfg w (expanduser w p) = Inr chest"
    and s: "priv_ender_chests config' = setitem (priv_ender_chests config) p chest"
    by (auto simp: register_enderchest_def split: sum.splits)
  show ?thesis
    using setitem_set [of "priv_ender_chests config" p chest] assms(2) c
    unfolding s by blast
qed

lemma load_chests_loaded:
  "\<forall>(k, v) \<in> set (priv_ender_chests config). from_cfg w (expanduser w k) = Inr v \<Longrightarrow>
   \<forall>(k, v) \<in> set (priv_ender_chests (snd (load_chests w cs config))).
      from_cfg w (expanduser w k) = Inr v"
proof (induction cs arbitrary: config)
  case Nil
  then show ?case by simp
next
  case (Cons c cs)
  show ?case
  proof (cases "register_enderchest w config (Path w c)")
    case (Inl e)
    show ?thesis
      using Cons.IH [OF Cons.prems] by (simp only: load_chests_Cons_Inl [OF Inl] snd_conv)
  next
    case (Inr config')
    show ?thesis
      using Cons.IH [OF register_enderchest_loaded [OF Inr Cons.prems]]
      by (simp only: load_chests_Cons_Inr [OF Inr])
  qed
qed

lemma setitem_prefix: "\<exists>ys. map fst (setitem d k v) = map fst d @ ys"
  by (simp add: setitem_keys)

lemma load_chests_prefix:
  "\<exists>ys. map fst (priv_ender_chests (snd (load_chests w cs config))) =
     map fst (priv_ender_chests config) @ ys"
proof (induction cs arbitrary: config)
  case Nil
  show ?case by simp
next
  case (Cons c cs)
  show ?case
  proof (cases "register_enderchest w config (Path w c)")
    case (Inl e)
    show ?thesis
      using Cons.IH [of config] by (simp only: load_chests_Cons_Inl [OF Inl] snd_conv)
  next
    case (Inr config')
    then obtain chest where
      "priv_ender_chests config' = setitem (priv_ender_chests config) (Path w c) chest"
      by (auto simp: register_enderchest_def split: sum.splits)
    with setitem_prefix [of "priv_ender_chests config" "Path w c" chest]
    obtain ys where "map fst (priv_ender_chests config') = map fst (priv_ender_chests config) @ ys"
      by auto
    with Cons.IH [of config'] show ?thesis
      by (simp only: load_chests_Cons_Inr [OF Inr]) auto
  qed
qed

lemma init_cases:
  "init w = ([], empty_config) \<and>
     (getenv w (py ''MINECRAFT_ROOT'') = None \<or> getenv w (py ''MINECRAFT_ROOT'') = Some []) \<or>
   (\<exists>r chest. getenv w (py ''MINECRAFT_ROOT'') = Some r \<and> r \<noteq> [] \<and>
      from_cfg w (expanduser w (Path w r)) = Inr chest \<and>
      init w = ([], \<lparr>priv_ender_chests = [(Path w r, chest)], priv_saves = []\<rparr>)) \<or>
   (\<exists>r e. getenv w (py ''MINECRAFT_ROOT'') = Some r \<and> r \<noteq> [] \<and>
      from_cfg w (expanduser w (Path w r)) = Inl e \<and>
      init w = ([LogError ''Failed to load chest from $MINECRAFT_ROOT: %s\<newline>%s'' r e],
                empty_config))"
  by (auto simp: init_def register_enderchest_def empty_config_def split: option.splits sum.splits)

lemma init_loaded:
  "\<forall>(k, v) \<in> set (priv_ender_chests (snd (init w))). from_cfg w (expanduser w k) = Inr v"
  using init_cases [of w] by (auto simp: empty_config_def)

lemma from_config_returns:
  assumes "read_text w f = Inr text" and "toml_loads w text = Some d"
    and "map_of d (py ''ender_chests'') = Some cv" and "map_of d (py ''saves'') = Some sv"
  shows "from_config w f =
    (fst (init w) @ fst (load_chests w (iter_value cv) (snd (init w))) @
       fst (load_saves w (iter_value sv) (snd (load_chests w (iter_value cv) (snd (init w))))),
     Returned (snd (load_saves w (iter_value sv) (snd (load_chests w (iter_value cv) (snd (init w)))))))"
  using assms by (simp add: from_config_def split: prod.splits)

subsection \<open>Loading a file with a path that fails\<close>

text \<open>
  Claim C2. When the file is read and parsed and lists its chests and saves,
  \<open>from_config\<close> returns a store and raises nothing, whatever registrations fail. Every
  listed chest whose descriptor loads is in the store with that descriptor; every listed
  chest whose registration fails is logged and is not a key of the store; a listed save
  is registered under its root or its failure is logged. A failed registration hands the
  store on as it was: the loop step only adds the log record.
\<close>

theorem from_config_skips_failures:
  assumes "read_text w f = Inr text" and "toml_loads w text = Some d"
    and "map_of d (py ''ender_chests'') = Some (Strs cs)"
    and "map_of d (py ''saves'') = Some (Strs ss)"
  shows "\<exists>log self'. from_config w f = (log, Returned self') \<and>
     (\<forall>c \<in> set cs.
        case from_cfg w (expanduser w (Path w c)) of
          Inr chest \<Rightarrow> map_of (priv_ender_chests self') (Path w c) = Some chest
        | Inl e \<Rightarrow> LogError ''Failed to load chest from %s\<newline>%s'' c e \<in> set log \<and>
                   Path w c \<notin> fst ` set (priv_ender_chests self')) \<and>
     (\<forall>s \<in> set ss.
        case manifest_of w (parent w (expanduser w (Path w s))) of
          Inr save \<Rightarrow> root w save \<in> fst ` set (priv_saves self')
        | Inl e \<Rightarrow> LogError ''Failed to load GSB manifest from %s\<newline>%s'' s e \<in> set log) \<and>
     (\<forall>config c e. register_enderchest w config (Path w c) = Inl e \<longrightarrow>
        load_chests w [c] config =
          ([LogError ''Failed to load chest from %s\<newline>%s'' c e], config)) \<and>
     (\<forall>config s e. register_save w config (Path w s) = Inl e \<longrightarrow>
        load_saves w [s] config =
          ([LogError ''Failed to load GSB manifest from %s\<newline>%s'' s e], config))"
proof -
  let ?c0 = "snd (init w)"
  let ?c1 = "snd (load_chests w cs ?c0)"
  let ?c2 = "snd (load_saves w ss ?c1)"
  let ?log = "fst (init w) @ fst (load_chests w cs ?c0) @ fst (load_saves w ss ?c1)"
  have ret: "from_config w f = (?log, Returned ?c2)"
    using from_config_returns [OF assms] by (simp add: iter_value_def)
  have chests2: "priv_ender_chests ?c2 = priv_ender_chests ?c1"
    by (rule load_saves_chests)
  have loaded: "\<forall>(k, v) \<in> set (priv_ender_chests ?c1). from_cfg w (expanduser w k) = Inr v"
    by (rule load_chests_loaded [OF init_loaded])
  have A: "case from_cfg w (expanduser w (Path w c)) of
          Inr chest \<Rightarrow> map_of (priv_ender_chests ?c2) (Path w c) = Some chest
        | Inl e \<Rightarrow> LogError ''Failed to load chest from %s\<newline>%s'' c e \<in> set ?log \<and>
                   Path w c \<notin> fst ` set (priv_ender_chests ?c2)" if "c \<in> set cs" for c
  proof (cases "from_cfg w (expanduser w (Path w c))")
    case (Inl e)
    have "LogError ''Failed to load chest from %s\<newline>%s'' c e \<in> set (fst (load_chests w cs ?c0))"
      unfolding load_chests_log using that Inl by force
    moreover have "Path w c \<notin> fst ` set (priv_ender_chests ?c1)"
    proof
      assume "Path w c \<in> fst ` set (priv_ender_chests ?c1)"
      then obtain v where "(Path w c, v) \<in> set (priv_ender_chests ?c1)" by auto
      with loaded have "from_cfg w (expanduser w (Path w c)) = Inr v" by blast
      with Inl show False by simp
    qed
    ultimately show ?thesis using Inl by (simp add: chests2)
  next
    case (Inr chest)
    with that have "Path w c \<in> fst ` set (priv_ender_chests ?c1)"
      unfolding load_chests_keys by blast
    then obtain v where v: "map_of (priv_ender_chests ?c1) (Path w c) = Some v"
      by (metis domD dom_map_of_conv_image_fst)
    then have "(Path w c, v) \<in> set (priv_ender_chests ?c1)" by (rule map_of_SomeD)
    with loaded have "from_cfg w (expanduser w (Path w c)) = Inr v" by blast
    with Inr v show ?thesis by (simp add: chests2)
  qed
  have B: "case manifest_of w (parent w (expanduser w (Path w s))) of
          Inr save \<Rightarrow> root w save \<in> fst ` set (priv_saves ?c2)
        | Inl e \<Rightarrow> LogError ''Failed to load GSB manifest from %s\<newline>%s'' s e \<in> set ?log"
    if "s \<in> set ss" for s
  proof (cases "manifest_of w (parent w (expanduser w (Path w s)))")
    case (Inl e)
    have "LogError ''Failed to load GSB manifest from %s\<newline>%s'' s e \<in> set (fst (load_saves w ss ?c1))"
      unfolding load_saves_log using that Inl by force
    then show ?thesis using Inl by simp
  next
    case (Inr save)
    with that have "root w save \<in> fst ` set (priv_saves ?c2)"
      unfolding load_saves_keys by blast
    then show ?thesis using Inr by simp
  qed
  have C: "\<forall>config c e. register_enderchest w config (Path w c) = Inl e \<longrightarrow>
        load_chests w [c] config =
          ([LogError ''Failed to load chest from %s\<newline>%s'' c e], config)"
    by simp
  have D: "\<forall>config s e. register_save w config (Path w s) = Inl e \<longrightarrow>
        load_saves w [s] config =
          ([LogError ''Failed to load GSB manifest from %s\<newline>%s'' s e], config)"
    by simp
  show ?thesis
    apply (rule exI [of _ ?log], rule exI [of _ ?c2])
    apply (intro conjI ballI)
    subgoal by (rule ret)
    subgoal for c by (rule A)
    subgoal for s by (rule B)
    subgoal by (rule C)
    subgoal by (rule D)
    done
qed


theorem from_config_skips_failures_witness:
  \<open>\<exists>log self'.
     from_config
       (test_world None [(py ''/good'', Inr 7), (py ''/bad'', Inl ValueError)] []
          [(py ''/cfg.toml'', py ''ender_chests = [\<newline>    "/bad",\<newline>    "/good",\<newline>]\<newline>saves = [\<newline>]\<newline>'')]
          [(py ''ender_chests = [\<newline>    "/bad",\<newline>    "/good",\<newline>]\<newline>saves = [\<newline>]\<newline>'',
            [(py ''ender_chests'', Strs [py ''/bad'', py ''/good'']), (py ''saves'', Strs [])])])
       (py ''/cfg.toml'') = (log, Returned self') \<and>
     map_of (priv_ender_chests self') (py ''/good'') = Some 7 \<and>
     LogError ''Failed to load chest from %s\<newline>%s'' (py ''/bad'') ValueError \<in> set log \<and>
     py ''/bad'' \<notin> fst ` set (priv_ender_chests self')\<close>
proof -
  let ?text = \<open>py ''ender_chests = [\<newline>    "/bad",\<newline>    "/good",\<newline>]\<newline>saves = [\<newline>]\<newline>''\<close>
  let ?d = "[(py ''ender_chests'', Strs [py ''/bad'', py ''/good'']), (py ''saves'', Strs [])]"
  let ?w = "test_world None [(py ''/good'', Inr 7), (py ''/bad'', Inl ValueError)] []
          [(py ''/cfg.toml'', ?text)] [(?text, ?d)]"
  have h1: "read_text ?w (py ''/cfg.toml'') = Inr ?text"
    by (simp add: test_world_def)
  have h2: "toml_loads ?w ?text = Some ?d"
    by (simp add: test_world_def)
  have h3: "map_of ?d (py ''ender_chests'') = Some (Strs [py ''/bad'', py ''/good''])"
    by simp
  have h4: "map_of ?d (py ''saves'') = Some (Strs [])"
    by (simp add: py_def)
  have bad: "from_cfg ?w (expanduser ?w (py ''/bad'')) = Inl ValueError"
    by (simp add: test_world_def posix_expanduser_def py_def)
  have good: "from_cfg ?w (expanduser ?w (py ''/good'')) = Inr 7"
    by (simp add: test_world_def posix_expanduser_def py_def)
  have paths: "Path ?w (py ''/bad'') = py ''/bad''" "Path ?w (py ''/good'') = py ''/good''"
    by (simp_all add: test_world_def)
  from from_config_skips_failures [OF h1 h2 h3 h4]
  obtain log self' where r: "from_config ?w (py ''/cfg.toml'') = (log, Returned self')"
    and c: "\<forall>c \<in> set [py ''/bad'', py ''/good''].
        case from_cfg ?w (expanduser ?w (Path ?w c)) of
          Inr chest \<Rightarrow> map_of (priv_ender_chests self') (Path ?w c) = Some chest
        | Inl e \<Rightarrow> LogError ''Failed to load chest from %s\<newline>%s'' c e \<in> set log \<and>
                   Path ?w c \<notin> fst ` set (priv_ender_chests self')"
    by blast
  have mem: "py ''/bad'' \<in> set [py ''/bad'', py ''/good'']"
    "py ''/good'' \<in> set [py ''/bad'', py ''/good'']"
    by simp_all
  from bspec [OF c mem(1)]
  have b: "LogError ''Failed to load chest from %s\<newline>%s'' (py ''/bad'') ValueError \<in> set log \<and>
                   py ''/bad'' \<notin> fst ` set (priv_ender_chests self')"
    by (simp add: bad paths)
  from bspec [OF c mem(2)]
  have g: "map_of (priv_ender_chests self') (py ''/good'') = Some 7"
    by (simp add: good paths)
  from r b g show ?thesis by blast
qed

subsection \<open>The chest of the environment\<close>

text \<open>
  Claim C9. \<open>from_config\<close> starts from the store that the constructor builds. When
  \<open>$MINECRAFT_ROOT\<close> is set to a non-empty path whose chest loads, and the file is read
  and parsed and has both keys, the returned store has that chest as its first entry,
  whether or not the file lists the path. So the store is not a function of the file
  alone: in two worlds with the same file, one with the variable set to \<open>/mc\<close> and one
  without it, the first store holds \<open>/mc\<close> and \<open>/a\<close> and the second only \<open>/a\<close>.
\<close>

theorem from_config_env_chest_first:
  assumes "getenv w (py ''MINECRAFT_ROOT'') = Some r" and "r \<noteq> []"
    and "from_cfg w (expanduser w (Path w r)) = Inr chest"
    and "read_text w f = Inr text" and "toml_loads w text = Some d"
    and "map_of d (py ''ender_chests'') = Some cv" and "map_of d (py ''saves'') = Some sv"
  shows \<open>(\<exists>log self'. from_config w f = (log, Returned self') \<and>
           priv_ender_chests self' \<noteq> [] \<and>
           hd (priv_ender_chests self') = (Path w r, chest) \<and>
           chest \<in> set (ender_chests self')) \<and>
         from_config
           (test_world (Some (py ''/mc'')) [(py ''/mc'', Inr 7), (py ''/a'', Inr 8)] []
              [(py ''/cfg.toml'', py ''ender_chests = [\<newline>    "/a",\<newline>]\<newline>saves = [\<newline>]\<newline>'')]
              [(py ''ender_chests = [\<newline>    "/a",\<newline>]\<newline>saves = [\<newline>]\<newline>'',
                [(py ''ender_chests'', Strs [py ''/a'']), (py ''saves'', Strs [])])])
           (py ''/cfg.toml'') =
           ([], Returned \<lparr>priv_ender_chests = [(py ''/mc'', 7), (py ''/a'', 8)], priv_saves = []\<rparr>) \<and>
         from_config
           (test_world None [(py ''/mc'', Inr 7), (py ''/a'', Inr 8)] []
              [(py ''/cfg.toml'', py ''ender_chests = [\<newline>    "/a",\<newline>]\<newline>saves = [\<newline>]\<newline>'')]
              [(py ''ender_chests = [\<newline>    "/a",\<newline>]\<newline>saves = [\<newline>]\<newline>'',
                [(py ''ender_chests'', Strs [py ''/a'']), (py ''saves'', Strs [])])])
           (py ''/cfg.toml'') =
           ([], Returned \<lparr>priv_ender_chests = [(py ''/a'', 8)], priv_saves = []\<rparr>)\<close>
proof -
  let ?c0 = "snd (init w)"
  let ?c1 = "snd (load_chests w (iter_value cv) ?c0)"
  let ?c2 = "snd (load_saves w (iter_value sv) ?c1)"
  have c0: "priv_ender_chests ?c0 = [(Path w r, chest)]"
    using assms(1-3) by (simp add: init_def register_enderchest_def empty_config_def)
  from load_chests_prefix [of w "iter_value cv" ?c0] obtain ys where
    "map fst (priv_ender_chests ?c1) = Path w r # ys"
    by (auto simp: c0)
  then obtain v rest where c1: "priv_ender_chests ?c1 = (Path w r, v) # rest"
    by (cases "priv_ender_chests ?c1") auto
  have "\<forall>(k, v) \<in> set (priv_ender_chests ?c1). from_cfg w (expanduser w k) = Inr v"
    by (rule load_chests_loaded [OF init_loaded])
  with c1 have "from_cfg w (expanduser w (Path w r)) = Inr v" by simp
  with assms(3) have "v = chest" by simp
  with c1 have c2: "priv_ender_chests ?c2 = (Path w r, chest) # rest"
    by (simp add: load_saves_chests)
  have "from_config w f = (fst (init w) @ fst (load_chests w (iter_value cv) ?c0) @
       fst (load_saves w (iter_value sv) ?c1), Returned ?c2)"
    by (rule from_config_returns [OF assms(4-7)])
  moreover have "priv_ender_chests ?c2 \<noteq> []" "hd (priv_ender_chests ?c2) = (Path w r, chest)"
    "chest \<in> set (ender_chests ?c2)"
    by (simp_all add: c2 ender_chests_def)
  ultimately have general: "\<exists>log self'. from_config w f = (log, Returned self') \<and>
           priv_ender_chests self' \<noteq> [] \<and>
           hd (priv_ender_chests self') = (Path w r, chest) \<and>
           chest \<in> set (ender_chests self')"
    by blast
  let ?text = \<open>py ''ender_chests = [\<newline>    "/a",\<newline>]\<newline>saves = [\<newline>]\<newline>''\<close>
  let ?d = "[(py ''ender_chests'', Strs [py ''/a'']), (py ''saves'', Strs [])]"
  have e: "from_config
     (test_world (Some (py ''/mc'')) [(py ''/mc'', Inr 7), (py ''/a'', Inr 8)] []
          [(py ''/cfg.toml'', ?text)] [(?text, ?d)]) (py ''/cfg.toml'') =
     ([], Returned \<lparr>priv_ender_chests = [(py ''/mc'', 7), (py ''/a'', 8)], priv_saves = []\<rparr>)"
    by (simp add: from_config_def init_def register_enderchest_def empty_config_def iter_value_def
        test_world_def posix_expanduser_def py_def)
  have e': "from_config
     (test_world None [(py ''/mc'', Inr 7), (py ''/a'', Inr 8)] []
          [(py ''/cfg.toml'', ?text)] [(?text, ?d)]) (py ''/cfg.toml'') =
     ([], Returned \<lparr>priv_ender_chests = [(py ''/a'', 8)], priv_saves = []\<rparr>)"
    by (simp add: from_config_def init_def register_enderchest_def empty_config_def iter_value_def
        test_world_def posix_expanduser_def py_def)
  from general e e' show ?thesis by (intro conjI)
qed

theorem from_config_env_chest_first_witness:
  \<open>\<exists>log self'.
     from_config
       (test_world (Some (py ''/mc'')) [(py ''/mc'', Inr 7), (py ''/a'', Inr 8)] []
          [(py ''/cfg.toml'', py ''ender_chests = [\<newline>    "/a",\<newline>]\<newline>saves = [\<newline>]\<newline>'')]
          [(py ''ender_chests = [\<newline>    "/a",\<newline>]\<newline>saves = [\<newline>]\<newline>'',
            [(py ''ender_chests'', Strs [py ''/a'']), (py ''saves'', Strs [])])])
       (py ''/cfg.toml'') = (log, Returned self') \<and>
     hd (priv_ender_chests self') = (py ''/mc'', 7) \<and> 7 \<in> set (ender_chests self')\<close>
proof -
  let ?text = \<open>py ''ender_chests = [\<newline>    "/a",\<newline>]\<newline>saves = [\<newline>]\<newline>''\<close>
  let ?d = "[(py ''ender_chests'', Strs [py ''/a'']), (py ''saves'', Strs [])]"
  let ?w = "test_world (Some (py ''/mc'')) [(py ''/mc'', Inr 7), (py ''/a'', Inr 8)] []
          [(py ''/cfg.toml'', ?text)] [(?text, ?d)]"
  have h1: "getenv ?w (py ''MINECRAFT_ROOT'') = Some (py ''/mc'')" by (simp add: test_world_def)
  have h2: "py ''/mc'' \<noteq> []" by (simp add: py_def)
  have h3: "from_cfg ?w (expanduser ?w (Path ?w (py ''/mc''))) = Inr 7"
    by (simp add: test_world_def posix_expanduser_def py_def)
  have h4: "read_text ?w (py ''/cfg.toml'') = Inr ?text" by (simp add: test_world_def)
  have h5: "toml_loads ?w ?text = Some ?d" by (simp add: test_world_def)
  have h6: "map_of ?d (py ''ender_chests'') = Some (Strs [py ''/a''])" by simp
  have h7: "map_of ?d (py ''saves'') = Some (Strs [])" by (simp add: py_def)
  have p: "Path ?w (py ''/mc'') = py ''/mc''" by (simp add: test_world_def)
  from from_config_env_chest_first [OF h1 h2 h3 h4 h5 h6 h7]
  show ?thesis unfolding p by blast
qed

subsection \<open>Failures of the whole document\<close>

text \<open>
  Claim C10 as stated fails for a document without \<open>saves\<close>: the chests it lists are
  registered first, and only then does the lookup of \<open>saves\<close> raise. Here the file lists
  the chest \<open>/a\<close> and has no \<open>saves\<close>; when the \<open>KeyError\<close> leaves \<open>from_config\<close>, the store
  under construction already holds \<open>/a\<close>.
\<close>

theorem missing_saves_after_chests:
  \<open>from_config
     (test_world None [(py ''/a'', Inr 8)] []
        [(py ''/cfg.toml'', py ''ender_chests = [\<newline>    "/a",\<newline>]\<newline>'')]
        [(py ''ender_chests = [\<newline>    "/a",\<newline>]\<newline>'',
          [(py ''ender_chests'', Strs [py ''/a''])])])
     (py ''/cfg.toml'') =
     ([], Raised (KeyError (py ''saves''))
            (Some \<lparr>priv_ender_chests = [(py ''/a'', 8)], priv_saves = []\<rparr>))\<close>
  by (simp add: from_config_def init_def register_enderchest_def empty_config_def iter_value_def
      test_world_def posix_expanduser_def py_def)

text \<open>
  Claim C10, as the code has it. None of the failures of the document is caught. An
  unreadable file raises the read error and a text that is not TOML raises the parse
  error, both before the store is constructed and with nothing logged. A document
  without \<open>ender_chests\<close> raises \<open>KeyError\<close> once the constructor has run (its log and its
  store are those of \<open>init\<close>), before any listed path is registered. A document with
  \<open>ender_chests\<close> and without \<open>saves\<close> raises \<open>KeyError\<close> after the loop over the chests has
  run (its log records are kept), before any save is registered. No store is returned
  in any of these cases.
\<close>

theorem from_config_document_errors:
  "(read_text w f = Inl e \<longrightarrow> from_config w f = ([], Raised (ReadError e) None)) \<and>
   (read_text w f = Inr text \<and> toml_loads w text = None \<longrightarrow>
      from_config w f = ([], Raised TOMLDecodeError None)) \<and>
   (read_text w f = Inr text \<and> toml_loads w text = Some d \<and>
    map_of d (py ''ender_chests'') = None \<longrightarrow>
      from_config w f =
        (fst (init w), Raised (KeyError (py ''ender_chests'')) (Some (snd (init w))))) \<and>
   (read_text w f = Inr text \<and> toml_loads w text = Some d \<and>
    map_of d (py ''ender_chests'') = Some cv \<and> map_of d (py ''saves'') = None \<longrightarrow>
      from_config w f =
        (fst (init w) @ fst (load_chests w (iter_value cv) (snd (init w))),
         Raised (KeyError (py ''saves''))
           (Some (snd (load_chests w (iter_value cv) (snd (init w)))))) \<and>
      priv_saves (snd (load_chests w (iter_value cv) (snd (init w)))) = [])"
proof -
  have "priv_saves (snd (init w)) = []"
    by (auto simp: init_def register_enderchest_def empty_config_def
        split: option.splits sum.splits)
  then have "priv_saves (snd (load_chests w (iter_value cv) (snd (init w)))) = []"
    by (simp add: load_chests_saves)
  then show ?thesis
    by (simp add: from_config_def split: prod.splits)
qed

theorem from_config_document_errors_witness:
  \<open>read_text (test_world None [] [] [] []) (py ''/cfg.toml'') = Inl OSError \<and>
   from_config (test_world None [] [] [] []) (py ''/cfg.toml'') =
     ([], Raised (ReadError OSError) None) \<and>
   (\<exists>config.
      from_config
        (test_world None [(py ''/a'', Inr 8)] []
           [(py ''/cfg.toml'', py ''ender_chests = [\<newline>    "/a",\<newline>]\<newline>'')]
           [(py ''ender_chests = [\<newline>    "/a",\<newline>]\<newline>'',
             [(py ''ender_chests'', Strs [py ''/a''])])])
        (py ''/cfg.toml'') = ([], Raised (KeyError (py ''saves'')) (Some config)) \<and>
      priv_saves config = [])\<close>
proof -
  have h: "read_text (test_world None [] [] [] []) (py ''/cfg.toml'') = Inl OSError"
    by (simp add: test_world_def)
  from from_config_document_errors [of "test_world None [] [] [] []" "py ''/cfg.toml''" OSError] h
  have 1: "from_config (test_world None [] [] [] []) (py ''/cfg.toml'') =
     ([], Raised (ReadError OSError) None)"
    by blast
  let ?text = \<open>py ''ender_chests = [\<newline>    "/a",\<newline>]\<newline>''\<close>
  let ?d = "[(py ''ender_chests'', Strs [py ''/a''])]"
  let ?w = "test_world None [(py ''/a'', Inr 8)] [] [(py ''/cfg.toml'', ?text)] [(?text, ?d)]"
  have g: "read_text ?w (py ''/cfg.toml'') = Inr ?text \<and> toml_loads ?w ?text = Some ?d \<and>
    map_of ?d (py ''ender_chests'') = Some (Strs [py ''/a'']) \<and> map_of ?d (py ''saves'') = None"
    by (simp add: test_world_def py_def)
  have l: "fst (init ?w) @ fst (load_chests ?w (iter_value (Strs [py ''/a''])) (snd (init ?w))) = []"
    by (simp add: init_def register_enderchest_def empty_config_def iter_value_def
      test_world_def posix_expanduser_def py_def)
  from from_config_document_errors [of ?w "py ''/cfg.toml''" _ ?text ?d "Strs [py ''/a'']"] g
  have "from_config ?w (py ''/cfg.toml'') =
        (fst (init ?w) @ fst (load_chests ?w (iter_value (Strs [py ''/a''])) (snd (init ?w))),
         Raised (KeyError (py ''saves''))
           (Some (snd (load_chests ?w (iter_value (Strs [py ''/a''])) (snd (init ?w)))))) \<and>
      priv_saves (snd (load_chests ?w (iter_value (Strs [py ''/a''])) (snd (init ?w)))) = []"
    by blast
  then have 2: "\<exists>config. from_config ?w (py ''/cfg.toml'') =
      ([], Raised (KeyError (py ''saves'')) (Some config)) \<and> priv_saves config = []"
    unfolding l by blast
  from h 1 2 show ?thesis by (intro conjI)
qed

subsection \<open>Writing a store and reading it back\<close>

text \<open>
  The chests do come back. When \<open>Path\<close> undoes \<open>str\<close>, the reader returns the chest list
  that \<open>Config.write\<close> emitted and every chest of the store loads again, the store read
  back holds the chests of the store written, and the chest of the environment.
\<close>

lemma chest_paths_reload:
  assumes path_str: "\<forall>p. Path w (str_of w p) = p"
    and "read_text w f = Inr text" and "toml_loads w text = Some d"
    and "map_of d (py ''ender_chests'') =
           Some (Strs (sorted_set (map (\<lambda>(minecraft_root, chest). str_of w minecraft_root)
                                     (priv_ender_chests self))))"
    and "map_of d (py ''saves'') = Some sv"
    and loads: "\<forall>(k, c) \<in> set (priv_ender_chests self). \<exists>c'. from_cfg w (expanduser w k) = Inr c'"
  shows "\<exists>log self'. from_config w f = (log, Returned self') \<and>
           fst ` set (priv_ender_chests self') =
             fst ` set (priv_ender_chests (snd (init w))) \<union> fst ` set (priv_ender_chests self)"
proof -
  let ?cs = "sorted_set (map (\<lambda>(minecraft_root, chest). str_of w minecraft_root) (priv_ender_chests self))"
  let ?c0 = "snd (init w)"
  let ?c1 = "snd (load_chests w ?cs ?c0)"
  let ?c2 = "snd (load_saves w (iter_value sv) ?c1)"
  have ret: "from_config w f =
      (fst (init w) @ fst (load_chests w ?cs ?c0) @ fst (load_saves w (iter_value sv) ?c1),
       Returned ?c2)"
    using from_config_returns [OF assms(2-5)] by (simp add: iter_value_def)
  have cs: "set ?cs = str_of w ` fst ` set (priv_ender_chests self)"
    by (force simp: sorted_set_set image_iff)
  have "Path w ` {c \<in> set ?cs. \<exists>chest. from_cfg w (expanduser w (Path w c)) = Inr chest} =
      fst ` set (priv_ender_chests self)"
  proof (intro set_eqI iffI)
    fix p
    assume "p \<in> Path w ` {c \<in> set ?cs. \<exists>chest. from_cfg w (expanduser w (Path w c)) = Inr chest}"
    then obtain k where "k \<in> fst ` set (priv_ender_chests self)" "p = Path w (str_of w k)"
      unfolding cs by blast
    with path_str show "p \<in> fst ` set (priv_ender_chests self)" by simp
  next
    fix p
    assume p: "p \<in> fst ` set (priv_ender_chests self)"
    with loads obtain c' where "from_cfg w (expanduser w p) = Inr c'" by force
    with path_str have "\<exists>chest. from_cfg w (expanduser w (Path w (str_of w p))) = Inr chest"
      by simp
    moreover from p have "str_of w p \<in> set ?cs" unfolding cs by blast
    ultimately have "Path w (str_of w p) \<in>
        Path w ` {c \<in> set ?cs. \<exists>chest. from_cfg w (expanduser w (Path w c)) = Inr chest}"
      by blast
    with path_str show "p \<in>
        Path w ` {c \<in> set ?cs. \<exists>chest. from_cfg w (expanduser w (Path w c)) = Inr chest}"
      by simp
  qed
  then have "fst ` set (priv_ender_chests ?c2) =
      fst ` set (priv_ender_chests ?c0) \<union> fst ` set (priv_ender_chests self)"
    by (simp only: load_saves_chests load_chests_keys)
  with ret show ?thesis by blast
qed

text \<open>
  Claim C1, at an input where the code departs from it. A store with one save,
  registered through \<open>/saves/world/.gsb_manifest\<close>, holds the root \<open>/saves/world\<close>;
  \<open>Config.write\<close> emits that root; \<open>from_config\<close> hands the root to \<open>register_save\<close>, which
  takes its parent as it would of a manifest path, so the store read back holds the
  root \<open>/saves\<close> and not \<open>/saves/world\<close>, although every registration succeeded.
\<close>

theorem save_root_reloads_as_parent:
  "register_save reload_world empty_config (py ''/saves/world/.gsb_manifest'') =
     Inr \<lparr>priv_ender_chests = [], priv_saves = [(py ''/saves/world'', py ''/saves/world'')]\<rparr> \<and>
   config_write reload_world
     \<lparr>priv_ender_chests = [], priv_saves = [(py ''/saves/world'', py ''/saves/world'')]\<rparr>
     (Some (py ''/cfg.toml'')) = Inr reload_text \<and>
   read_text reload_world (py ''/cfg.toml'') = Inr reload_text \<and>
   from_config reload_world (py ''/cfg.toml'') =
     ([], Returned \<lparr>priv_ender_chests = [], priv_saves = [(py ''/saves'', py ''/saves'')]\<rparr>)"
  apply (intro conjI)
  subgoal
    by (simp add: register_save_def empty_config_def reload_world_def test_world_def
        posix_expanduser_def posix_parent_def py_def)
  subgoal
    by (simp add: config_write_def as_dict_of_def to_toml_Str to_toml_Strs to_toml_Nil
        reload_world_def reload_text_def test_world_def sorted_set_def json_dumps_def
        needs_escape_def py_def)
  subgoal
    by (simp add: reload_world_def test_world_def)
  subgoal
    by (simp add: from_config_def init_def register_save_def empty_config_def iter_value_def
        reload_world_def test_world_def posix_expanduser_def posix_parent_def py_def)
  done

subsection \<open>Escaping and the JSON reader\<close>

text \<open>Four hex digits are written for every number below \<open>0x10000\<close>, and read back.\<close>

lemma hex_value_hex_digit: "d < 16 \<Longrightarrow> hex_value (hex_digit d) = Some d"
  by (auto simp: hex_value_def hex_digit_def)

lemma hex_digits_step:
  "16 \<le> n \<Longrightarrow> hex_digits n = hex_digits (n div 16) @ [hex_digit (n mod 16)]"
  by (subst hex_digits.simps) simp

lemma hex_digits_1: "n < 16 \<Longrightarrow> hex_digits n = [hex_digit n]"
  by (subst hex_digits.simps) simp

lemma hex_digits_2:
  assumes "16 \<le> n" "n < 256"
  shows "hex_digits n = [hex_digit (n div 16), hex_digit (n mod 16)]"
proof -
  from assms have "n div 16 < 16" by (simp add: less_mult_imp_div_less)
  then have "hex_digits (n div 16) = [hex_digit (n div 16)]" by (rule hex_digits_1)
  with hex_digits_step [OF assms(1)] show ?thesis by simp
qed

lemma hex_digits_3:
  assumes "256 \<le> n" "n < 4096"
  shows "hex_digits n = [hex_digit (n div 256), hex_digit (n div 16 mod 16), hex_digit (n mod 16)]"
proof -
  from assms have a: "16 \<le> n div 16" "n div 16 < 256" by linarith+
  have b: "n div 16 div 16 = n div 256" by (simp add: div_mult2_eq)
  from assms(1) have "16 \<le> n" by simp
  from hex_digits_step [OF this] hex_digits_2 [OF a] b show ?thesis
    by simp
qed

lemma hex_digits_4:
  assumes "4096 \<le> n" "n < 65536"
  shows "hex_digits n = [hex_digit (n div 4096), hex_digit (n div 256 mod 16),
                   hex_digit (n div 16 mod 16), hex_digit (n mod 16)]"
proof -
  from assms have a: "256 \<le> n div 16" "n div 16 < 4096" by linarith+
  have b: "n div 16 div 256 = n div 4096" "n div 16 div 16 = n div 256"
    by (simp_all add: div_mult2_eq)
  from assms(1) have "16 \<le> n" by simp
  from hex_digits_step [OF this] hex_digits_3 [OF a] b show ?thesis
    by simp
qed


lemma format_04x_eq:
  assumes "n < 65536"
  shows "format_04x n = [hex_digit (n div 4096), hex_digit (n div 256 mod 16),
                         hex_digit (n div 16 mod 16), hex_digit (n mod 16)]"
proof -
  have z: "hex_digit 0 = 48" by (simp add: hex_digit_def)
  have r3: "replicate 3 x = [x, x, x]" for x :: nat by (simp add: numeral_3_eq_3)
  have r2: "replicate 2 x = [x, x]" for x :: nat by (simp add: numeral_2_eq_2)
  consider "n < 16" | "16 \<le> n" "n < 256" | "256 \<le> n" "n < 4096" | "4096 \<le> n"
    by linarith
  then show ?thesis
  proof cases
    case 1
    then have d: "n div 4096 = 0" "n div 256 = 0" "n div 16 = 0" "n mod 16 = n" by simp_all
    have "format_04x n = replicate 3 48 @ [hex_digit n]"
      by (simp add: format_04x_def hex_digits_1 [OF 1])
    then show ?thesis by (simp add: d z r3)
  next
    case 2
    then have d: "n div 4096 = 0" "n div 256 = 0" "n div 16 mod 16 = n div 16"
      by (simp_all add: less_mult_imp_div_less)
    have "format_04x n = replicate 2 48 @ [hex_digit (n div 16), hex_digit (n mod 16)]"
      by (simp add: format_04x_def hex_digits_2 [OF 2])
    then show ?thesis by (simp add: d z r2)
  next
    case 3
    then have d: "n div 4096 = 0" "n div 256 mod 16 = n div 256"
      by (simp_all add: less_mult_imp_div_less)
    have "format_04x n = replicate 1 48 @
        [hex_digit (n div 256), hex_digit (n div 16 mod 16), hex_digit (n mod 16)]"
      by (simp add: format_04x_def hex_digits_3 [OF 3])
    then show ?thesis by (simp add: d z)
  next
    case 4
    with assms show ?thesis
      by (simp add: format_04x_def hex_digits_4)
  qed
qed

lemma horner_16:
  fixes n :: nat
  assumes "n = 16 * q1 + r0" "q1 = 16 * q2 + r1" "q2 = 16 * q3 + r2"
  shows "((q3 * 16 + r2) * 16 + r1) * 16 + r0 = n"
  using assms by simp

lemma decode_format_04x:
  assumes "n < 65536"
  shows "decode_uXXXX (format_04x n @ rest) = Some n"
proof -
  have a: "n div 4096 < 16" using assms by (simp add: less_mult_imp_div_less)
  have 1: "n = 16 * (n div 16) + n mod 16" by simp
  have "n div 16 = 16 * (n div 16 div 16) + n div 16 mod 16" by simp
  moreover have "n div 16 div 16 = n div 256" by (simp add: div_mult2_eq)
  ultimately have 2: "n div 16 = 16 * (n div 256) + n div 16 mod 16" by simp
  have "n div 256 = 16 * (n div 256 div 16) + n div 256 mod 16" by simp
  moreover have "n div 256 div 16 = n div 4096" by (simp add: div_mult2_eq)
  ultimately have 3: "n div 256 = 16 * (n div 4096) + n div 256 mod 16" by simp
  have "((n div 4096 * 16 + n div 256 mod 16) * 16 + n div 16 mod 16) * 16 + n mod 16 = n"
    by (rule horner_16 [OF 1 2 3])
  then show ?thesis
    by (simp add: format_04x_eq [OF assms] decode_uXXXX_def hex_value_hex_digit a)
qed

lemma length_format_04x: "n < 65536 \<Longrightarrow> length (format_04x n) = 4"
  by (simp add: format_04x_eq)

text \<open>What the reader makes of one escaped character in front of the rest of a string.\<close>

lemma scan_plain:
  "\<not> needs_escape c \<Longrightarrow> scanstring (c # rest) = map_option ((#) c) (scanstring rest)"
  by (simp add: needs_escape_def)

lemma scan_short:
  "c \<in> {92, 34, 8, 12, 10, 13, 9} \<Longrightarrow>
   scanstring (escape_char c @ rest) = map_option ((#) c) (scanstring rest)"
  by (auto simp: escape_char_def py_def backslash_def)

lemma scan_u:
  assumes "c < 65536"
  shows "scanstring (92 # 117 # format_04x c @ rest) =
     (if 0xd800 \<le> c \<and> c \<le> 0xdbff \<and> take 2 rest = [92, 117] then
        (case decode_uXXXX (drop 2 rest) of
           None \<Rightarrow> None
         | Some uni2 \<Rightarrow>
             if 0xdc00 \<le> uni2 \<and> uni2 \<le> 0xdfff then
               map_option ((#) (0x10000 + ((c - 0xd800) * 1024 + (uni2 - 0xdc00))))
                 (scanstring (drop 6 rest))
             else map_option ((#) c) (scanstring rest))
      else map_option ((#) c) (scanstring rest))"
proof -
  from format_04x_eq [OF assms] obtain x0 x1 x2 x3 where f: "format_04x c = [x0, x1, x2, x3]"
    by simp
  have dec: "decode_uXXXX (x0 # x1 # x2 # x3 # rest) = Some c"
    using decode_format_04x [OF assms, of rest] by (simp add: f)
  show ?thesis
    by (simp add: f dec split: option.splits)
qed


lemma escape_char_u:
  "c \<notin> {92, 34, 8, 12, 10, 13, 9} \<Longrightarrow> c < 65536 \<Longrightarrow> escape_char c = 92 # 117 # format_04x c"
  by (simp add: escape_char_def py_def)

lemma escape_char_pair:
  "65536 \<le> c \<Longrightarrow>
   escape_char c =
     92 # 117 # format_04x (0xd800 + ((c - 0x10000) div 1024) mod 1024) @
     92 # 117 # format_04x (0xdc00 + (c - 0x10000) mod 1024)"
  by (simp add: escape_char_def py_def Let_def)

lemma scan_pair:
  assumes "65536 \<le> c" and "c < 0x110000"
  shows "scanstring (escape_char c @ rest) = map_option ((#) c) (scanstring rest)"
proof -
  define m where "m = c - 0x10000"
  define s1 where "s1 = 0xd800 + (m div 1024) mod 1024"
  define s2 where "s2 = 0xdc00 + m mod 1024"
  have m: "m < 1048576" "c = 65536 + m" using assms by (simp_all add: m_def)
  have s1: "s1 < 65536" "0xd800 \<le> s1" "s1 \<le> 0xdbff"
    using mod_less_divisor [of 1024 "m div 1024"] by (simp_all add: s1_def)
  have s2: "s2 < 65536" "0xdc00 \<le> s2" "s2 \<le> 0xdfff"
    using mod_less_divisor [of 1024 m] by (simp_all add: s2_def)
  from format_04x_eq [OF s2(1)] obtain x0 x1 x2 x3 where f: "format_04x s2 = [x0, x1, x2, x3]"
    by simp
  have dec: "decode_uXXXX (x0 # x1 # x2 # x3 # rest) = Some s2"
    using decode_format_04x [OF s2(1), of rest] by (simp add: f)
  have "m div 1024 < 1024" using m(1) by (simp add: less_mult_imp_div_less)
  then have "m div 1024 mod 1024 = m div 1024" by simp
  then have val: "65536 + ((s1 - 0xd800) * 1024 + (s2 - 0xdc00)) = c"
    by (simp add: s1_def s2_def m(2))
  have "escape_char c = 92 # 117 # format_04x s1 @ 92 # 117 # format_04x s2"
    using escape_char_pair [OF assms(1)] by (simp add: s1_def s2_def m_def)
  then have "scanstring (escape_char c @ rest) =
      scanstring (92 # 117 # format_04x s1 @ (92 # 117 # x0 # x1 # x2 # x3 # rest))"
    by (simp add: f)
  also have "\<dots> = map_option ((#) c) (scanstring rest)"
    unfolding scan_u [OF s1(1)] using s1(2,3) s2(2,3) val by (simp add: dec)
  finally show ?thesis .
qed

text \<open>
  When the rest of an emitted string begins with \<open>\u\<close>, the four digits after it are those
  of the next character, or of the high surrogate that stands for it.
\<close>

lemma next_escape:
  assumes "\<forall>c \<in> set s. c < 0x110000"
    and "take 2 (concat (map (\<lambda>c. if needs_escape c then escape_char c else [c]) s) @ [34]) = [92, 117]"
  shows "\<exists>c t u. s = c # t \<and>
     decode_uXXXX (drop 2 (concat (map (\<lambda>c. if needs_escape c then escape_char c else [c]) s) @ [34])) = Some u \<and>
     (u = c \<or> high_surrogate u)"
proof (cases s)
  case Nil
  with assms(2) show ?thesis by simp
next
  case (Cons c t)
  let ?rest = "concat (map (\<lambda>c. if needs_escape c then escape_char c else [c]) t) @ [34]"
  have body: "concat (map (\<lambda>c. if needs_escape c then escape_char c else [c]) s) @ [34] =
      (if needs_escape c then escape_char c else [c]) @ ?rest"
    by (simp add: Cons)
  have short_ne: "needs_escape c" if "c \<in> {92, 34, 8, 12, 10, 13, 9}"
    using that by (auto simp: needs_escape_def)
  consider (plain) "\<not> needs_escape c"
    | (short) "c \<in> {92, 34, 8, 12, 10, 13, 9}"
    | (u) "needs_escape c" "c \<notin> {92, 34, 8, 12, 10, 13, 9}" "c < 65536"
    | (pair) "65536 \<le> c"
    by (cases "needs_escape c"; cases "c \<in> {92, 34, 8, 12, 10, 13, 9}"; cases "c < 65536")
       (simp_all only: not_less, blast+)
  then show ?thesis
  proof cases
    case plain
    then have "c \<noteq> 92" by (auto simp: needs_escape_def)
    with assms(2) plain show ?thesis unfolding body by simp
  next
    case short
    have esc: "\<exists>x. escape_char c = [92, x] \<and> x \<noteq> 117"
      using short by (auto simp: escape_char_def py_def)
    then obtain x where x: "escape_char c = [92, x]" "x \<noteq> 117" by blast
    from assms(2) have False unfolding body by (simp add: short_ne [OF short] x)
    then show ?thesis ..
  next
    case u
    have "decode_uXXXX (format_04x c @ ?rest) = Some c"
      by (rule decode_format_04x [OF u(3)])
    with u show ?thesis unfolding body
      by (simp add: escape_char_u Cons)
  next
    case pair
    define s1 where "s1 = 0xd800 + ((c - 0x10000) div 1024) mod 1024"
    have s1: "s1 < 65536" "high_surrogate s1"
      using mod_less_divisor [of 1024 "(c - 0x10000) div 1024"]
      by (simp_all add: s1_def high_surrogate_def)
    from pair have ne: "needs_escape c" by (simp add: needs_escape_def)
    have "decode_uXXXX (format_04x s1 @ 92 # 117 #
        format_04x (0xdc00 + (c - 0x10000) mod 1024) @ ?rest) = Some s1"
      by (rule decode_format_04x [OF s1(1)])
    with ne s1(2) show ?thesis unfolding body
      by (simp add: escape_char_pair [OF pair] Cons flip: s1_def)
  qed
qed


lemma no_split_pair_tail: "no_split_pair (c # s) \<Longrightarrow> no_split_pair s"
  by (cases s) simp_all

lemma scan_body:
  assumes "\<forall>c \<in> set s. is_code_point c" and "no_split_pair s"
  shows "scanstring (concat (map (\<lambda>c. if needs_escape c then escape_char c else [c]) s) @ [34]) =
     Some s"
  using assms
proof (induction s)
  case Nil
  show ?case by simp
next
  case (Cons c s)
  let ?rest = "concat (map (\<lambda>c. if needs_escape c then escape_char c else [c]) s) @ [34]"
  have cp: "c < 0x110000" "\<forall>c \<in> set s. c < 0x110000"
    using Cons.prems(1) by (simp_all add: is_code_point_def)
  have IH: "scanstring ?rest = Some s"
    using Cons.IH Cons.prems no_split_pair_tail [of c s] by simp
  have step: "scanstring ((if needs_escape c then escape_char c else [c]) @ ?rest) =
      map_option ((#) c) (scanstring ?rest)"
  proof -
    have short_ne: "needs_escape c" if "c \<in> {92, 34, 8, 12, 10, 13, 9}"
      using that by (auto simp: needs_escape_def)
    consider (plain) "\<not> needs_escape c"
      | (short) "c \<in> {92, 34, 8, 12, 10, 13, 9}"
      | (u) "needs_escape c" "c \<notin> {92, 34, 8, 12, 10, 13, 9}" "c < 65536"
      | (pair) "65536 \<le> c"
      by (cases "needs_escape c"; cases "c \<in> {92, 34, 8, 12, 10, 13, 9}"; cases "c < 65536")
         (simp_all only: not_less, blast+)
    then show ?thesis
    proof cases
      case plain
      then show ?thesis
        by (simp only: if_False append_Cons append_Nil scan_plain [OF plain])
    next
      case short
      then show ?thesis by (simp only: short_ne [OF short] if_True scan_short)
    next
      case u
      have "\<not> (0xd800 \<le> c \<and> c \<le> 0xdbff \<and> take 2 ?rest = [92, 117] \<and>
          (\<forall>uni2. decode_uXXXX (drop 2 ?rest) = Some uni2 \<longrightarrow> 0xdc00 \<le> uni2 \<and> uni2 \<le> 0xdfff))"
      proof
        assume a: "0xd800 \<le> c \<and> c \<le> 0xdbff \<and> take 2 ?rest = [92, 117] \<and>
          (\<forall>uni2. decode_uXXXX (drop 2 ?rest) = Some uni2 \<longrightarrow> 0xdc00 \<le> uni2 \<and> uni2 \<le> 0xdfff)"
        then have hi: "high_surrogate c" by (simp add: high_surrogate_def)
        from a next_escape [OF cp(2)] obtain c' t v where
          s: "s = c' # t" and d: "decode_uXXXX (drop 2 ?rest) = Some v" and
          v: "v = c' \<or> high_surrogate v"
          by blast
        from a d have lo: "low_surrogate v" by (simp add: low_surrogate_def)
        then have "\<not> high_surrogate v" by (simp add: low_surrogate_def high_surrogate_def)
        with v have "v = c'" by simp
        with lo hi s Cons.prems(2) show False by simp
      qed
      moreover have "take 2 ?rest = [92, 117] \<Longrightarrow> \<exists>v. decode_uXXXX (drop 2 ?rest) = Some v"
        using next_escape [OF cp(2)] by blast
      ultimately show ?thesis
        by (simp only: u(1) if_True escape_char_u [OF u(2,3)] append_Cons scan_u [OF u(3)])
           (auto split: option.splits)
    next
      case pair
      then have "needs_escape c" by (simp add: needs_escape_def)
      then show ?thesis by (simp only: if_True scan_pair [OF pair cp(1)])
    qed
  qed
  have "concat (map (\<lambda>c. if needs_escape c then escape_char c else [c]) (c # s)) @ [34] =
      (if needs_escape c then escape_char c else [c]) @ ?rest"
    by simp
  then show ?case by (simp only: step IH) simp
qed

text \<open>
  Claim C8 as stated fails: a string may hold a high surrogate directly before a low
  surrogate as two characters. Both are escaped one by one, and the reader joins the
  two escapes into one code point: the quote, \<open>U+D83D\<close>, \<open>U+DE00\<close> come back as the quote
  and \<open>U+1F600\<close>.
\<close>

theorem split_pair_is_joined:
  "json_unescape (json_dumps [34, 0xD83D, 0xDE00]) = Some [34, 0x1F600] \<and>
   [34, 0x1F600] \<noteq> [34, 0xD83D, 0xDE00 :: nat]"
  by (simp add: json_unescape_def json_dumps_def needs_escape_def escape_char_def py_def
      format_04x_def hex_digits.simps hex_digit_def decode_uXXXX_def hex_value_def backslash_def)

text \<open>
  Claim C8, as the code has it. For every string of code points in which no high
  surrogate stands directly before a low surrogate (quotes, backslashes, control
  characters, characters beyond ASCII and beyond the basic plane included), the JSON
  reader applied to what \<open>json.dumps\<close> emits gives the string back.
\<close>

theorem json_dumps_round_trip:
  assumes "\<forall>c \<in> set s. is_code_point c" and "no_split_pair s"
  shows "json_unescape (json_dumps s) = Some s"
  using scan_body [OF assms] by (simp add: json_unescape_def json_dumps_def)

theorem json_dumps_round_trip_witness:
  "list_all is_code_point [97, 34, 92, 10, 233, 0xDC80, 0x1F600] \<and>
   json_unescape (json_dumps [97, 34, 92, 10, 233, 0xDC80, 0x1F600]) =
     Some [97, 34, 92, 10, 233, 0xDC80, 0x1F600]"
proof -
  have a: "\<forall>c \<in> set [97, 34, 92, 10, 233, 0xDC80, 0x1F600]. is_code_point c"
    by (simp add: is_code_point_def)
  have b: "no_split_pair [97, 34, 92, 10, 233, 0xDC80, 0x1F600]"
    by (simp add: high_surrogate_def low_surrogate_def)
  from json_dumps_round_trip [OF a b] a show ?thesis by (simp add: list_all_iff)
qed

end
